theory Spec2Isabelle
  imports Main
begin

section \<open>Spreadsheet values and Python primitives\<close>

text \<open>
  A spreadsheet cell as the Python code receives it: empty (\<open>None\<close>, or \<open>NaN\<close> in a
  pandas frame), a text, or an integer.  Floating-point and date cells are outside the
  model.  A \<open>string\<close> is a list of characters, and a character stands for the code
  point of its number, from 0 to 255; texts with a code point above 255 are outside
  the model.  On these code points \<open>lower\<close> is \<open>str.lower\<close> (the letters A to Z and
  the capital letters of Latin-1, U+00C0 to U+00DE without the sign U+00D7, move up
  by 32) and \<open>strip\<close> is \<open>str.strip\<close>, whose whitespace is U+0009 to U+000D,
  U+001C to U+0020, U+0085 and U+00A0.
\<close>

datatype cell = CNone | CStr string | CInt int

datatype py_error = IndexError | AttributeError

fun is_text_or_empty :: "cell \<Rightarrow> bool" where
  "is_text_or_empty CNone = True"
| "is_text_or_empty (CStr s) = True"
| "is_text_or_empty (CInt n) = False"

text \<open>Python truthiness of a cell value (\<open>if v\<close>).\<close>

fun truthy :: "cell \<Rightarrow> bool" where
  "truthy CNone = False"
| "truthy (CStr s) = (s \<noteq> [])"
| "truthy (CInt n) = (n \<noteq> 0)"

text \<open>\<open>xs[i]\<close> for a non-negative index: raises \<open>IndexError\<close> out of range.\<close>

definition get :: "'a list \<Rightarrow> nat \<Rightarrow> py_error + 'a" where
  "get xs i = (if i < length xs then Inr (xs ! i) else Inl IndexError)"

definition lower_char :: "char \<Rightarrow> char" where
  "lower_char c =
     (let n = (of_char c :: nat) in
      if (65 \<le> n \<and> n \<le> 90) \<or> (192 \<le> n \<and> n \<le> 222 \<and> n \<noteq> 215) then char_of (n + 32)
      else c)"

definition lower :: "string \<Rightarrow> string" where
  "lower s = map lower_char s"

definition is_space :: "char \<Rightarrow> bool" where
  "is_space c =
     (let n = (of_char c :: nat) in
      (9 \<le> n \<and> n \<le> 13) \<or> (28 \<le> n \<and> n \<le> 32) \<or> n = 133 \<or> n = 160)"

definition strip :: "string \<Rightarrow> string" where
  "strip s = rev (dropWhile is_space (rev (dropWhile is_space s)))"

text \<open>\<open>s.startswith(p)\<close>, \<open>s.endswith(p)\<close> and the substring test \<open>p in s\<close>.\<close>

fun startswith :: "string \<Rightarrow> string \<Rightarrow> bool" where
  "startswith s [] = True"
| "startswith [] (p # ps) = False"
| "startswith (c # cs) (p # ps) = (c = p \<and> startswith cs ps)"

definition endswith :: "string \<Rightarrow> string \<Rightarrow> bool" where
  "endswith s p = startswith (rev s) (rev p)"

fun contains :: "string \<Rightarrow> string \<Rightarrow> bool" where
  "contains [] p = (p = [])"
| "contains (c # cs) p = (startswith (c # cs) p \<or> contains cs p)"

text \<open>\<open>any(p in s for p in patterns)\<close>.\<close>

definition contains_any :: "string \<Rightarrow> string list \<Rightarrow> bool" where
  "contains_any s patterns = list_ex (contains s) patterns"

section \<open>Race classifier\<close>

text \<open>\<open>is_race_we_want\<close> of \<open>iowa_election_processor.py\<close>.\<close>

definition races_to_keep :: "string list" where
  "races_to_keep =
     [''president'', ''governor'', ''u.s. senator'', ''us senator'',
      ''u.s. rep'', ''us rep'', ''state senator'', ''state rep'']"

fun is_race_we_want :: "cell \<Rightarrow> bool" where
  "is_race_we_want CNone = False"
| "is_race_we_want (CInt n) = False"
| "is_race_we_want (CStr race_name) = contains_any (lower race_name) races_to_keep"

text \<open>
  \<open>filter_races\<close> of \<open>team_a/process_iowa_election_data.py\<close>, as the mask it computes
  for one \<open>RaceTitle\<close> value: \<open>str.contains\<close> of the alternation of the patterns,
  \<open>case=False\<close>, \<open>na=False\<close>.  The patterns hold no regular-expression operator, so
  the alternation matches exactly where one of them occurs as a substring, letter case
  ignored; a value that is not a text gives \<open>NaN\<close>, which \<open>na=False\<close> turns into
  \<open>False\<close>.
\<close>

definition race_patterns :: "string list" where
  "race_patterns =
     [''President'', ''US Senator'', ''United States Senator'', ''US Rep'',
      ''United States Representative'', ''State Rep'', ''Governor'']"

fun filter_races_mask :: "cell \<Rightarrow> bool" where
  "filter_races_mask (CStr t) = contains_any (lower t) (map lower race_patterns)"
| "filter_races_mask c = False"

section \<open>Column resolver\<close>

text \<open>\<open>get_columns_to_keep\<close> of \<open>iowa_election_processor.py\<close>.\<close>

definition metadata_columns :: "string list" where
  "metadata_columns = [''RaceTitle'', ''CandidateName'', ''PoliticalPartyName'']"

text \<open>
  The loop over \<open>enumerate(header_row)\<close>: \<open>column_index\<close> is the running index and
  \<open>columns_to_keep\<close> the list built so far.  \<open>header.strip()\<close> on an integer header
  raises \<open>AttributeError\<close>.
\<close>

fun columns_loop :: "nat \<Rightarrow> cell list \<Rightarrow> (nat \<times> string) list \<Rightarrow> py_error + (nat \<times> string) list" where
  "columns_loop column_index [] columns_to_keep = Inr columns_to_keep"
| "columns_loop column_index (CNone # hs) columns_to_keep =
     columns_loop (Suc column_index) hs columns_to_keep"
| "columns_loop column_index (CInt n # hs) columns_to_keep = Inl AttributeError"
| "columns_loop column_index (CStr header # hs) columns_to_keep =
     (let header_clean = strip header in
      if header_clean \<in> set metadata_columns then
        columns_loop (Suc column_index) hs (columns_to_keep @ [(column_index, header_clean)])
      else if endswith header_clean '' Total'' then
        (let precinct_name = take (length header_clean - 6) header_clean in
         if CHR ''-'' \<in> set precinct_name then
           columns_loop (Suc column_index) hs (columns_to_keep @ [(column_index, precinct_name)])
         else columns_loop (Suc column_index) hs columns_to_keep)
      else columns_loop (Suc column_index) hs columns_to_keep)"

definition get_columns_to_keep :: "cell list \<Rightarrow> py_error + (nat \<times> string) list" where
  "get_columns_to_keep header_row = columns_loop 0 header_row []"

section \<open>Flat-sheet parser\<close>

text \<open>
  A worksheet as \<open>openpyxl\<close> hands it over: \<open>header\<close> is
  \<open>[cell.value for cell in ws[1]]\<close>, \<open>rows\<close> are the tuples of
  \<open>ws.iter_rows(min_row=2, values_only=True)\<close>, and \<open>county_name\<close> is the base name
  of the file with \<open>_2016_totals.xlsx\<close> removed.
\<close>

record sheet =
  county_name :: string
  header :: "cell list"
  rows :: "cell list list"

text \<open>The comprehension \<open>[row[i] for i in indices]\<close>.\<close>

fun pick :: "'a list \<Rightarrow> nat list \<Rightarrow> py_error + 'a list" where
  "pick row [] = Inr []"
| "pick row (i # indices) =
     (case get row i of
        Inl e \<Rightarrow> Inl e
      | Inr v \<Rightarrow> (case pick row indices of Inl e \<Rightarrow> Inl e | Inr vs \<Rightarrow> Inr (v # vs)))"

record cleaned =
  new_headers :: "string list"
  new_rows :: "cell list list"
  rows_kept :: nat
  rows_removed :: nat

text \<open>The data-row loop of \<open>process_election_file\<close>.\<close>

fun filter_rows :: "(nat \<times> string) list \<Rightarrow> cell list list \<Rightarrow> cleaned \<Rightarrow> py_error + cleaned" where
  "filter_rows columns_to_keep [] out = Inr out"
| "filter_rows columns_to_keep (row # rest) out =
     (case get row 0 of
        Inl e \<Rightarrow> Inl e
      | Inr race_name \<Rightarrow>
          if is_race_we_want race_name then
            (case pick row (map fst columns_to_keep) of
               Inl e \<Rightarrow> Inl e
             | Inr new_row \<Rightarrow>
                 filter_rows columns_to_keep rest
                   (out\<lparr>new_rows := new_rows out @ [new_row], rows_kept := rows_kept out + 1\<rparr>))
          else filter_rows columns_to_keep rest (out\<lparr>rows_removed := rows_removed out + 1\<rparr>))"

definition process_election_file :: "sheet \<Rightarrow> py_error + cleaned" where
  "process_election_file source_sheet =
     (case get_columns_to_keep (header source_sheet) of
        Inl e \<Rightarrow> Inl e
      | Inr columns_to_keep \<Rightarrow>
          filter_rows columns_to_keep (rows source_sheet)
            \<lparr>new_headers = map snd columns_to_keep, new_rows = [], rows_kept = 0, rows_removed = 0\<rparr>)"

section \<open>Formatting\<close>

text \<open>\<open>str\<close> of a number and of a cell value, as the f-strings of the merger use it.\<close>

fun str_nat :: "nat \<Rightarrow> string" where
  "str_nat n =
     (if n < 10 then [char_of (48 + n)] else str_nat (n div 10) @ [char_of (48 + n mod 10)])"

declare str_nat.simps [simp del]

definition str_int :: "int \<Rightarrow> string" where
  "str_int i = (if i < 0 then CHR ''-'' # str_nat (nat (- i)) else str_nat (nat i))"

fun py_str :: "cell \<Rightarrow> string" where
  "py_str CNone = ''None''"
| "py_str (CStr s) = s"
| "py_str (CInt i) = str_int i"

text \<open>
  \<open>int(s)\<close> for a text: surrounding whitespace is dropped, one sign is allowed, and the
  digits may be separated by single underscores; anything else raises \<open>ValueError\<close>
  (here \<open>None\<close>).  The whitespace of \<open>int\<close> is smaller than that of \<open>str.strip\<close>:
  U+0009 to U+000D, U+0020, U+0085 and U+00A0, without the separators U+001C to
  U+001F.  The limit that recent Python versions put on the number of digits is not
  modelled.
\<close>

definition is_int_space :: "char \<Rightarrow> bool" where
  "is_int_space c =
     (let n = (of_char c :: nat) in (9 \<le> n \<and> n \<le> 13) \<or> n = 32 \<or> n = 133 \<or> n = 160)"

definition int_strip :: "string \<Rightarrow> string" where
  "int_strip s = rev (dropWhile is_int_space (rev (dropWhile is_int_space s)))"

definition is_digit :: "char \<Rightarrow> bool" where
  "is_digit c = (let n = (of_char c :: nat) in 48 \<le> n \<and> n \<le> 57)"

fun parse_digits :: "bool \<Rightarrow> nat \<Rightarrow> string \<Rightarrow> nat option" where
  "parse_digits prev_digit acc [] = (if prev_digit then Some acc else None)"
| "parse_digits prev_digit acc (c # cs) =
     (if is_digit c then parse_digits True (10 * acc + (of_char c - 48)) cs
      else if c = CHR ''_'' \<and> prev_digit then parse_digits False acc cs
      else None)"

definition py_int :: "string \<Rightarrow> int option" where
  "py_int s =
     (case int_strip s of
        [] \<Rightarrow> None
      | c # cs \<Rightarrow>
          if c = CHR ''-'' then map_option (\<lambda>n. - int n) (parse_digits False 0 cs)
          else if c = CHR ''+'' then map_option int (parse_digits False 0 cs)
          else map_option int (parse_digits False 0 (c # cs)))"

section \<open>County merger\<close>

text \<open>\<open>merge_county_files\<close> of \<open>iowa_election_processor.py\<close>.\<close>

definition metadata_cols :: "string list" where
  "metadata_cols = [''RaceTitle'', ''CandidateName'', ''PoliticalPartyName'']"

text \<open>
  \<open>base_rows\<close>: the rows of \<open>iter_rows(min_row=2, max_col=2, values_only=True)\<close>, which
  always have two entries; a column the sheet does not have reads as \<open>None\<close>.
\<close>

definition cell_at :: "cell list \<Rightarrow> nat \<Rightarrow> cell" where
  "cell_at row i = (if i < length row then row ! i else CNone)"

definition base_rows_of :: "sheet \<Rightarrow> (cell \<times> cell) list" where
  "base_rows_of first_ws = map (\<lambda>row. (cell_at row 0, cell_at row 1)) (rows first_ws)"

text \<open>The initial \<open>merged_data\<close>: \<open>[row[0], row[1]]\<close> for every data row of the first file.\<close>

fun start_rows :: "cell list list \<Rightarrow> py_error + cell list list" where
  "start_rows [] = Inr []"
| "start_rows (row # rest) =
     (case get row 0 of
        Inl e \<Rightarrow> Inl e
      | Inr race \<Rightarrow>
          (case get row 1 of
             Inl e \<Rightarrow> Inl e
           | Inr cand \<Rightarrow>
               (case start_rows rest of Inl e \<Rightarrow> Inl e | Inr ms \<Rightarrow> Inr ([race, cand] # ms))))"

text \<open>
  The header loop of one file: the pairs of \<open>precinct_indices\<close> and of the names appended
  to \<open>merged_headers\<close>.  \<open>h.strip()\<close> on a non-zero integer header raises
  \<open>AttributeError\<close>.
\<close>

fun precinct_columns :: "nat \<Rightarrow> cell list \<Rightarrow> py_error + (nat \<times> string) list" where
  "precinct_columns i [] = Inr []"
| "precinct_columns i (h # hs) =
     (if truthy h then
        (case h of
           CStr s \<Rightarrow>
             (case precinct_columns (Suc i) hs of
                Inl e \<Rightarrow> Inl e
              | Inr ps \<Rightarrow> Inr (if strip s \<notin> set metadata_cols then (i, strip s) # ps else ps))
         | _ \<Rightarrow> Inl AttributeError)
      else precinct_columns (Suc i) hs)"

definition mismatch_message :: "string \<Rightarrow> cell \<times> cell \<Rightarrow> cell \<times> cell \<Rightarrow> string" where
  "mismatch_message county expected got =
     ''Row mismatch in '' @ county @ '': expected ('' @ py_str (fst expected) @ '', ''
       @ py_str (snd expected) @ ''), got ('' @ py_str (fst got) @ '', '' @ py_str (snd got) @ '')''"

text \<open>
  The state of the merge loop: \<open>problems_found\<close> and \<open>merged_data\<close>.  One data row of a
  county file: the check against \<open>base_rows\<close>, then
  \<open>merged_data[row_index].extend(precinct_votes)\<close>.
\<close>

type_synonym merge_state = "string list \<times> cell list list"

definition add_row ::
  "string \<Rightarrow> (cell \<times> cell) list \<Rightarrow> nat list \<Rightarrow> nat \<Rightarrow> cell list \<Rightarrow> merge_state
     \<Rightarrow> py_error + merge_state" where
  "add_row county base_rows precinct_indices row_index row st =
     (case get row 0 of
        Inl e \<Rightarrow> Inl e
      | Inr race_title \<Rightarrow>
          (case get row 1 of
             Inl e \<Rightarrow> Inl e
           | Inr candidate \<Rightarrow>
               (let problems =
                      (if row_index < length base_rows
                          \<and> (race_title \<noteq> fst (base_rows ! row_index)
                               \<or> candidate \<noteq> snd (base_rows ! row_index))
                       then fst st @ [mismatch_message county (base_rows ! row_index)
                                        (race_title, candidate)]
                       else fst st)
                in (case pick row precinct_indices of
                      Inl e \<Rightarrow> Inl e
                    | Inr precinct_votes \<Rightarrow>
                        if row_index < length (snd st) then
                          Inr (problems,
                               (snd st)[row_index := snd st ! row_index @ precinct_votes])
                        else Inl IndexError))))"

fun add_rows ::
  "string \<Rightarrow> (cell \<times> cell) list \<Rightarrow> nat list \<Rightarrow> nat \<Rightarrow> cell list list \<Rightarrow> merge_state
     \<Rightarrow> py_error + merge_state" where
  "add_rows county base_rows precinct_indices row_index [] st = Inr st"
| "add_rows county base_rows precinct_indices row_index (row # rest) st =
     (case add_row county base_rows precinct_indices row_index row st of
        Inl e \<Rightarrow> Inl e
      | Inr st' \<Rightarrow> add_rows county base_rows precinct_indices (Suc row_index) rest st')"

text \<open>The whole loop state: headers, precinct count, problems and data.\<close>

record merge_output =
  merged_headers :: "string list"
  total_precincts :: nat
  problems_found :: "string list"
  merged_data :: "cell list list"

definition add_file :: "(cell \<times> cell) list \<Rightarrow> sheet \<Rightarrow> merge_output \<Rightarrow> py_error + merge_output" where
  "add_file base_rows ws m =
     (case precinct_columns 0 (header ws) of
        Inl e \<Rightarrow> Inl e
      | Inr pcs \<Rightarrow>
          (case add_rows (county_name ws) base_rows (map fst pcs) 0 (rows ws)
                  (problems_found m, merged_data m) of
             Inl e \<Rightarrow> Inl e
           | Inr st \<Rightarrow>
               Inr \<lparr>merged_headers = merged_headers m @ map snd pcs,
                    total_precincts = total_precincts m + length pcs,
                    problems_found = fst st,
                    merged_data = snd st\<rparr>))"

fun add_files :: "(cell \<times> cell) list \<Rightarrow> sheet list \<Rightarrow> merge_output \<Rightarrow> py_error + merge_output" where
  "add_files base_rows [] m = Inr m"
| "add_files base_rows (ws # rest) m =
     (case add_file base_rows ws m of
        Inl e \<Rightarrow> Inl e
      | Inr m' \<Rightarrow> add_files base_rows rest m')"

section \<open>Consistency checks and report\<close>

text \<open>
  Check 1 of \<open>merge_county_files\<close>: every row of \<open>merged_data\<close> is compared with
  \<open>expected_cols\<close>; \<open>i\<close> is the index of \<open>enumerate\<close>.
\<close>

definition column_message :: "nat \<Rightarrow> nat \<Rightarrow> nat \<Rightarrow> string" where
  "column_message i len expected_cols =
     ''Row '' @ str_nat (i + 2) @ '' has '' @ str_nat len @ '' columns, expected ''
       @ str_nat expected_cols"

fun check_columns :: "nat \<Rightarrow> nat \<Rightarrow> cell list list \<Rightarrow> string list \<Rightarrow> string list" where
  "check_columns expected_cols i [] problems = problems"
| "check_columns expected_cols i (row # rest) problems =
     check_columns expected_cols (Suc i) rest
       (if length row \<noteq> expected_cols
        then problems @ [column_message i (length row) expected_cols] else problems)"

text \<open>
  Check 2.  \<open>has_votes v\<close> is the test \<open>v and int(v) > 0\<close> inside the \<open>try\<close> block:
  a text that \<open>int\<close> rejects raises \<open>ValueError\<close>, which is caught and counts as no
  votes.
\<close>

definition statewide_races :: "string list" where
  "statewide_races = [''president'', ''governor'', ''u.s. senator'', ''us senator'']"

fun has_votes :: "cell \<Rightarrow> bool" where
  "has_votes CNone = False"
| "has_votes (CInt n) = (n \<noteq> 0 \<and> n > 0)"
| "has_votes (CStr s) = (s \<noteq> [] \<and> (case py_int s of None \<Rightarrow> False | Some n \<Rightarrow> n > 0))"

definition precincts_with_votes :: "cell list \<Rightarrow> nat" where
  "precincts_with_votes precinct_votes = length (filter has_votes precinct_votes)"

definition suspicious_message :: "string \<Rightarrow> cell \<Rightarrow> string" where
  "suspicious_message race_title candidate =
     ''Suspicious: '' @ [CHR 0x27] @ race_title @ [CHR 0x27] @ '' / '' @ [CHR 0x27]
       @ py_str candidate @ [CHR 0x27] @ '' has votes in ALL precincts''"

text \<open>
  \<open>row[0].lower() if row[0] else ""\<close>: a non-zero integer in the first column has no
  \<open>lower\<close> and raises \<open>AttributeError\<close>.
\<close>

fun lowered_title :: "cell \<Rightarrow> py_error + string" where
  "lowered_title CNone = Inr []"
| "lowered_title (CStr s) = Inr (if s \<noteq> [] then lower s else [])"
| "lowered_title (CInt n) = (if n \<noteq> 0 then Inl AttributeError else Inr [])"

text \<open>
  The body of the second loop for one row.  The statewide branch with fewer than half
  of the precincts (\<open>precincts_with_votes < total_precincts * 0.5\<close>) is \<open>pass\<close>: it
  leaves \<open>problems_found\<close> as it is.
\<close>

definition check_pattern_row :: "nat \<Rightarrow> cell list \<Rightarrow> string list \<Rightarrow> py_error + string list" where
  "check_pattern_row total_count row problems =
     (case get row 0 of
        Inl e \<Rightarrow> Inl e
      | Inr r0 \<Rightarrow>
          (case lowered_title r0 of
             Inl e \<Rightarrow> Inl e
           | Inr race_title \<Rightarrow>
               (case get row 1 of
                  Inl e \<Rightarrow> Inl e
                | Inr candidate \<Rightarrow>
                    (let precinct_votes = drop 2 row;
                         n = precincts_with_votes precinct_votes;
                         is_statewide = contains_any race_title statewide_races;
                         problems1 = (if is_statewide \<and> 2 * n < total_count then problems else problems)
                     in Inr (if \<not> is_statewide \<and> n = total_count
                             then problems1 @ [suspicious_message race_title candidate]
                             else problems1)))))"

fun check_patterns :: "nat \<Rightarrow> cell list list \<Rightarrow> string list \<Rightarrow> py_error + string list" where
  "check_patterns total_count [] problems = Inr problems"
| "check_patterns total_count (row # rest) problems =
     (case check_pattern_row total_count row problems of
        Inl e \<Rightarrow> Inl e
      | Inr problems' \<Rightarrow> check_patterns total_count rest problems')"

text \<open>The strings the report section prints, one for each call of \<open>print\<close>.\<close>

definition report_lines :: "string list \<Rightarrow> string list" where
  "report_lines problems =
     (if problems \<noteq> [] then
        [[CHR 0x0A] @ ''*** FOUND '' @ str_nat (length problems) @ '' POTENTIAL PROBLEMS ***'']
        @ map (\<lambda>p. ''  - '' @ p) (take 10 problems)
        @ (if length problems > 10
           then [''  ... and '' @ str_nat (length problems - 10) @ '' more''] else [])
      else [''  No problems found!''])"

text \<open>
  The whole function on the sorted list of county files.  With no file it prints an
  error and returns; otherwise the saved table is \<open>merged_headers\<close> followed by the rows
  of \<open>merged_data\<close>, and \<open>report\<close> holds the printed problem report.
\<close>

datatype merge_result = NoFilesFound | Saved merge_output "string list"

definition merge_county_files :: "sheet list \<Rightarrow> py_error + merge_result" where
  "merge_county_files county_files =
     (case county_files of
        [] \<Rightarrow> Inr NoFilesFound
      | first_ws # others \<Rightarrow>
          (case start_rows (rows first_ws) of
             Inl e \<Rightarrow> Inl e
           | Inr data0 \<Rightarrow>
               (case add_files (base_rows_of first_ws) county_files
                       \<lparr>merged_headers = [''RaceTitle'', ''CandidateName''],
                        total_precincts = 0, problems_found = [], merged_data = data0\<rparr> of
                  Inl e \<Rightarrow> Inl e
                | Inr m \<Rightarrow>
                    (let problems1 = check_columns (2 + total_precincts m) 0 (merged_data m)
                                       (problems_found m)
                     in (case check_patterns (total_precincts m) (merged_data m) problems1 of
                           Inl e \<Rightarrow> Inl e
                         | Inr problems2 \<Rightarrow>
                             Inr (Saved (m\<lparr>problems_found := problems2\<rparr>)
                                        (report_lines problems2)))))))"

section \<open>Multi-sheet parser\<close>

text \<open>
  \<open>process_2018_2020_file\<close> of \<open>team_a/process_iowa_election_data.py\<close>.  A frame is the
  result of \<open>pd.read_excel(..., header=None)\<close>: a list of rows of equal length.  A cell
  that pandas reads as missing is \<open>CNone\<close> (\<open>NaN\<close>): an empty cell, and also a text
  cell that holds one of the missing-value markers of \<open>read_excel\<close>, such as \<open>n/a\<close>,
  \<open>NA\<close> or \<open>NULL\<close>; so no frame holds such a text.  \<open>iloc\<close> is \<open>df.iloc[r, c]\<close>,
  \<open>ncols\<close> is \<open>len(df.columns)\<close>.
\<close>

type_synonym frame = "cell list list"

definition iloc :: "frame \<Rightarrow> nat \<Rightarrow> nat \<Rightarrow> py_error + cell" where
  "iloc df r c = (case get df r of Inl e \<Rightarrow> Inl e | Inr row \<Rightarrow> get row c)"

definition ncols :: "frame \<Rightarrow> nat" where
  "ncols df = (case df of [] \<Rightarrow> 0 | row # _ \<Rightarrow> length row)"

text \<open>Column 0 of a block of rows (\<open>df.iloc[3:, 0]\<close>).\<close>

fun pick_column :: "frame \<Rightarrow> py_error + cell list" where
  "pick_column [] = Inr []"
| "pick_column (row # rest) =
     (case get row 0 of
        Inl e \<Rightarrow> Inl e
      | Inr v \<Rightarrow> (case pick_column rest of Inl e \<Rightarrow> Inl e | Inr vs \<Rightarrow> Inr (v # vs)))"

text \<open>
  The precinct loop over \<open>df.iloc[3:, 0]\<close>: it stops at \<open>"Total:"\<close> or at an empty cell;
  the result pairs \<open>precinct_names\<close> with \<open>precinct_rows\<close>.
\<close>

fun scan_precincts :: "nat \<Rightarrow> cell list \<Rightarrow> (cell \<times> nat) list" where
  "scan_precincts row_idx [] = []"
| "scan_precincts row_idx (val # vals) =
     (if val = CStr ''Total:'' \<or> val = CNone then []
      else (val, row_idx) # scan_precincts (Suc row_idx) vals)"

text \<open>The lookahead \<open>for offset in range(5)\<close> over the category row (row 2).\<close>

fun find_total :: "frame \<Rightarrow> nat \<Rightarrow> nat list \<Rightarrow> py_error + nat option" where
  "find_total df col_idx [] = Inr None"
| "find_total df col_idx (offset # offsets) =
     (if col_idx + offset < ncols df then
        (case iloc df 2 (col_idx + offset) of
           Inl e \<Rightarrow> Inl e
         | Inr hdr \<Rightarrow>
             if hdr = CStr ''Total Votes'' \<or> hdr = CStr ''Total'' then Inr (Some (col_idx + offset))
             else find_total df col_idx offsets)
      else find_total df col_idx offsets)"

definition lookahead :: "nat list" where
  "lookahead = [0, 1, 2, 3, 4]"

lemma find_total_bounds:
  "find_total df col_idx offsets = Inr (Some t) \<Longrightarrow> col_idx \<le> t \<and> t < ncols df"
  by (induction offsets) (auto split: if_splits sum.splits)

text \<open>
  The \<open>while col_idx < len(df.columns)\<close> loop over the candidate row (row 1); the result
  pairs \<open>candidates\<close> with \<open>candidate_cols\<close>.
\<close>

function scan_candidates :: "frame \<Rightarrow> nat \<Rightarrow> py_error + (cell \<times> nat) list" where
  "scan_candidates df col_idx =
     (if col_idx < ncols df then
        (case iloc df 1 col_idx of
           Inl e \<Rightarrow> Inl e
         | Inr candidate_name \<Rightarrow>
             if candidate_name = CNone then scan_candidates df (col_idx + 1)
             else
               (case find_total df col_idx lookahead of
                  Inl e \<Rightarrow> Inl e
                | Inr None \<Rightarrow> scan_candidates df (col_idx + 1)
                | Inr (Some total_col_idx) \<Rightarrow>
                    (case scan_candidates df (total_col_idx + 1) of
                       Inl e \<Rightarrow> Inl e
                     | Inr found \<Rightarrow> Inr ((candidate_name, total_col_idx) # found))))
      else Inr [])"
  by pat_completeness auto
termination
  by (relation "measure (\<lambda>(df, col_idx). ncols df - col_idx)")
     (auto dest: find_total_bounds)

declare scan_candidates.simps [simp del]

record vote_record =
  RaceTitle :: cell
  CandidateName :: cell
  PrecinctName :: string
  Votes :: cell

text \<open>
  One record of \<open>all_races\<close>: the vote cell is replaced by \<open>0\<close> exactly when
  \<open>pd.isna(votes)\<close> holds, and is kept as it is otherwise.
\<close>

definition make_record :: "string \<Rightarrow> frame \<Rightarrow> cell \<Rightarrow> cell \<times> nat \<Rightarrow> cell \<times> nat \<Rightarrow> py_error + vote_record" where
  "make_record county df race_title cand prec =
     (case iloc df (snd prec) (snd cand) of
        Inl e \<Rightarrow> Inl e
      | Inr votes \<Rightarrow>
          Inr \<lparr>RaceTitle = race_title, CandidateName = fst cand,
               PrecinctName = county @ ''-'' @ py_str (fst prec),
               Votes = (if votes \<noteq> CNone then votes else CInt 0)\<rparr>)"

text \<open>A list of fallible steps run in order, stopping at the first error.\<close>

fun collect :: "('a \<Rightarrow> py_error + 'b list) \<Rightarrow> 'a list \<Rightarrow> py_error + 'b list" where
  "collect f [] = Inr []"
| "collect f (x # xs) =
     (case f x of
        Inl e \<Rightarrow> Inl e
      | Inr ys \<Rightarrow> (case collect f xs of Inl e \<Rightarrow> Inl e | Inr zs \<Rightarrow> Inr (ys @ zs)))"

definition candidate_records ::
  "string \<Rightarrow> frame \<Rightarrow> cell \<Rightarrow> (cell \<times> nat) list \<Rightarrow> cell \<times> nat \<Rightarrow> py_error + vote_record list" where
  "candidate_records county df race_title precincts cand =
     collect (\<lambda>prec. case make_record county df race_title cand prec of
                        Inl e \<Rightarrow> Inl e | Inr r \<Rightarrow> Inr [r]) precincts"

text \<open>
  The body of the loop over \<open>data_sheets\<close> for one sheet: the records it appends to
  \<open>all_races\<close>.  A sheet with an empty first cell or with no precinct row is skipped.
\<close>

definition sheet_records :: "string \<Rightarrow> frame \<Rightarrow> py_error + vote_record list" where
  "sheet_records county df =
     (case iloc df 0 0 of
        Inl e \<Rightarrow> Inl e
      | Inr race_title \<Rightarrow>
          if race_title = CNone then Inr []
          else
            (case pick_column (drop 3 df) of
               Inl e \<Rightarrow> Inl e
             | Inr col0 \<Rightarrow>
                 (let precincts = scan_precincts 3 col0 in
                  if precincts = [] then Inr []
                  else
                    (case scan_candidates df 1 of
                       Inl e \<Rightarrow> Inl e
                     | Inr cands \<Rightarrow>
                         collect (candidate_records county df race_title precincts) cands))))"

text \<open>
  The records \<open>all_races\<close> of a workbook, given as its sheets in order, each with its
  name; the two reserved sheet names are left out.
\<close>

definition all_races :: "string \<Rightarrow> (string \<times> frame) list \<Rightarrow> py_error + vote_record list" where
  "all_races county wb =
     collect (\<lambda>(sheet_name, df). sheet_records county df)
       (filter (\<lambda>(sheet_name, df). sheet_name \<notin> set [''Table of Contents'', ''Registered Voters''])
          wb)"

section \<open>Key-based merger\<close>

text \<open>
  \<open>merge_county_files\<close> of \<open>team_a/process_iowa_election_data.py\<close>, from the list
  \<open>all_data\<close> on; it is \<open>team_merge_county_files\<close> here, since the positional merger
  has the same name.  A county frame is what \<open>process_2016_file\<close> or
  \<open>process_2018_2020_file\<close> returns: the columns \<open>RaceTitle\<close> and \<open>CandidateName\<close>, which
  make the key of a row, and the precinct columns; \<open>precincts\<close> are the labels of the
  precinct columns in order, and an entry is a row, its key and one cell for each
  precinct column.  Race titles and candidate names are texts; a frame with a number
  or an empty cell as candidate name is outside the model.  The labels of a frame are
  distinct, since pandas builds them from the keys of a dictionary or from a pivot, and
  none of them is \<open>RaceTitle\<close> or \<open>CandidateName\<close>, which the code leaves out of
  \<open>precinct_cols\<close>.
\<close>

record county_frame =
  precincts :: "string list"
  entries :: "((string \<times> string) \<times> cell list) list"

text \<open>\<open>drop_duplicates\<close>: of equal rows the first one stays, the order is kept.\<close>

definition drop_duplicates :: "'a list \<Rightarrow> 'a list" where
  "drop_duplicates xs = rev (remdups (rev xs))"

definition all_races_candidates :: "county_frame list \<Rightarrow> (string \<times> string) list" where
  "all_races_candidates all_data =
     drop_duplicates (concat (map (\<lambda>df. map fst (entries df)) all_data))"

text \<open>
  \<open>merged_df.merge(df[...], on=['RaceTitle', 'CandidateName'], how='left')\<close>.  A row of
  \<open>merged_df\<close> is joined with every row of \<open>df\<close> that has its key, in the order of \<open>df\<close>;
  when \<open>df\<close> has no such row, the row stays, with a missing value in every column of
  \<open>df\<close>.  When a label of \<open>df\<close> is already a label of \<open>merged_df\<close>, pandas renames both
  columns with the suffixes \<open>_x\<close> and \<open>_y\<close> or raises \<open>MergeError\<close>; the model does not
  follow such a run and stops with \<open>LabelClash\<close>.
\<close>

type_synonym wide_row = "(string \<times> string) \<times> cell list"

record wide_frame =
  labels :: "string list"
  wide_rows :: "wide_row list"

datatype team_error = LabelClash | ValueError

definition left_join_row :: "county_frame \<Rightarrow> wide_row \<Rightarrow> wide_row list" where
  "left_join_row df row =
     (case filter (\<lambda>e. fst e = fst row) (entries df) of
        [] \<Rightarrow> [(fst row, snd row @ replicate (length (precincts df)) CNone)]
      | e # es \<Rightarrow> map (\<lambda>e. (fst row, snd row @ snd e)) (e # es))"

definition merge_frame :: "wide_frame \<Rightarrow> county_frame \<Rightarrow> team_error + wide_frame" where
  "merge_frame merged_df df =
     (if \<exists>c \<in> set (precincts df). c \<in> set (labels merged_df) then Inl LabelClash
      else Inr \<lparr>labels = labels merged_df @ precincts df,
                wide_rows = concat (map (left_join_row df) (wide_rows merged_df))\<rparr>)"

fun merge_frames :: "wide_frame \<Rightarrow> county_frame list \<Rightarrow> team_error + wide_frame" where
  "merge_frames merged_df [] = Inr merged_df"
| "merge_frames merged_df (df # rest) =
     (case merge_frame merged_df df of
        Inl e \<Rightarrow> Inl e
      | Inr merged_df' \<Rightarrow> merge_frames merged_df' rest)"

text \<open>
  \<open>sort_values(['RaceTitle', 'CandidateName'])\<close>: texts are compared as Python compares
  them, code point by code point, a proper prefix coming first; rows are ordered by
  race title, then by candidate name.  Rows with the same key keep their order.
\<close>

fun str_less :: "string \<Rightarrow> string \<Rightarrow> bool" where
  "str_less [] [] = False"
| "str_less [] (y # ys) = True"
| "str_less (x # xs) [] = False"
| "str_less (x # xs) (y # ys) =
     ((of_char x :: nat) < of_char y \<or> (x = y \<and> str_less xs ys))"

definition key_less :: "string \<times> string \<Rightarrow> string \<times> string \<Rightarrow> bool" where
  "key_less a b = (str_less (fst a) (fst b) \<or> (fst a = fst b \<and> str_less (snd a) (snd b)))"

fun insert_row :: "wide_row \<Rightarrow> wide_row list \<Rightarrow> wide_row list" where
  "insert_row r [] = [r]"
| "insert_row r (x # xs) =
     (if key_less (fst x) (fst r) then x # insert_row r xs else r # x # xs)"

definition sort_values :: "wide_row list \<Rightarrow> wide_row list" where
  "sort_values rs = foldr insert_row rs []"

text \<open>
  The table that \<open>to_csv\<close> writes: the header and the rows, with the column
  \<open>PoliticalPartyName\<close> that \<open>insert(2, 'PoliticalPartyName', '')\<close> puts in third place,
  the empty text in every row.  \<open>insert\<close> raises \<open>ValueError\<close> when the frame already has
  a column of that name.  A missing value is written as an empty field.  With no frame
  the function prints a message and returns.  Numbers stand for their values: pandas
  stores the numbers of a column that has a missing value as floating-point numbers of
  the same value.
\<close>

record csv_table =
  csv_header :: "string list"
  csv_rows :: "cell list list"

datatype team_result = NoData | Written csv_table

definition csv_row :: "wide_row \<Rightarrow> cell list" where
  "csv_row r = CStr (fst (fst r)) # CStr (snd (fst r)) # CStr [] # snd r"

definition team_merge_county_files :: "county_frame list \<Rightarrow> team_error + team_result" where
  "team_merge_county_files all_data =
     (if all_data = [] then Inr NoData
      else
        (case merge_frames
                \<lparr>labels = [], wide_rows = map (\<lambda>k. (k, [])) (all_races_candidates all_data)\<rparr>
                all_data of
           Inl e \<Rightarrow> Inl e
         | Inr merged_df \<Rightarrow>
             if ''PoliticalPartyName'' \<in> set (labels merged_df) then Inl ValueError
             else Inr (Written
                    \<lparr>csv_header = ''RaceTitle'' # ''CandidateName'' # ''PoliticalPartyName''
                                    # labels merged_df,
                     csv_rows = map csv_row (sort_values (wide_rows merged_df))\<rparr>)))"

section \<open>Notions used in the statements\<close>

text \<open>
  What the loop of \<open>get_columns_to_keep\<close> does with one trimmed header, and with one
  enumerated header cell.
\<close>

definition resolved_name :: "string \<Rightarrow> string option" where
  "resolved_name header_clean =
     (if header_clean \<in> set metadata_columns then Some header_clean
      else if endswith header_clean '' Total'' \<and> CHR ''-'' \<in> set (take (length header_clean - 6) header_clean)
      then Some (take (length header_clean - 6) header_clean) else None)"

fun kept_column :: "nat \<times> cell \<Rightarrow> (nat \<times> string) list" where
  "kept_column (i, CStr s) = (case resolved_name (strip s) of None \<Rightarrow> [] | Some n \<Rightarrow> [(i, n)])"
| "kept_column (i, c) = []"

text \<open>
  The precinct columns of a county file as the header loop of the merger finds them:
  index and trimmed name of every header that is a non-empty text and, trimmed, not a
  metadata name.  \<open>contribution ws k\<close> is what the file adds to merged row \<open>k\<close>: the
  precinct cells of its own row \<open>k\<close>, and nothing when it has no such row.
\<close>

definition precinct_pair :: "nat \<times> cell \<Rightarrow> (nat \<times> string) list" where
  "precinct_pair p =
     (case snd p of
        CStr s \<Rightarrow> if s \<noteq> [] \<and> strip s \<notin> set metadata_cols then [(fst p, strip s)] else []
      | _ \<Rightarrow> [])"

definition precinct_pairs :: "sheet \<Rightarrow> (nat \<times> string) list" where
  "precinct_pairs ws = concat (map precinct_pair (enumerate 0 (header ws)))"

definition precinct_indices :: "sheet \<Rightarrow> nat list" where
  "precinct_indices ws = map fst (precinct_pairs ws)"

definition precinct_names :: "sheet \<Rightarrow> string list" where
  "precinct_names ws = map snd (precinct_pairs ws)"

definition contribution :: "sheet \<Rightarrow> nat \<Rightarrow> cell list" where
  "contribution ws k =
     (if k < length (rows ws) then map ((!) (rows ws ! k)) (precinct_indices ws) else [])"

text \<open>
  The findings of the row comparison for one enumerated data row and for one file, and
  the finding of the column-count check for one enumerated merged row.
\<close>

definition row_mismatch :: "string \<Rightarrow> (cell \<times> cell) list \<Rightarrow> nat \<times> cell list \<Rightarrow> string list" where
  "row_mismatch county base p =
     (if fst p < length base
         \<and> (snd p ! 0 \<noteq> fst (base ! fst p) \<or> snd p ! 1 \<noteq> snd (base ! fst p))
      then [mismatch_message county (base ! fst p) (snd p ! 0, snd p ! 1)] else [])"

definition file_mismatches :: "(cell \<times> cell) list \<Rightarrow> sheet \<Rightarrow> string list" where
  "file_mismatches base ws =
     concat (map (row_mismatch (county_name ws) base) (enumerate 0 (rows ws)))"

definition column_finding :: "nat \<Rightarrow> nat \<times> cell list \<Rightarrow> string list" where
  "column_finding expected_cols p =
     (if length (snd p) \<noteq> expected_cols
      then [column_message (fst p) (length (snd p)) expected_cols] else [])"

text \<open>
  The race title that the vote-pattern check computes for a merged row, whether it is
  statewide, and the finding of that check: a row is suspicious when it is not
  statewide and the number of its precinct cells with votes equals the precinct count.
  A row is \<open>checkable\<close> when the check does not raise on it.
\<close>

definition row_title :: "cell list \<Rightarrow> string" where
  "row_title row = (case row ! 0 of CStr s \<Rightarrow> lower s | _ \<Rightarrow> [])"

definition is_statewide_row :: "cell list \<Rightarrow> bool" where
  "is_statewide_row row = contains_any (row_title row) statewide_races"

definition suspicious :: "nat \<Rightarrow> cell list \<Rightarrow> bool" where
  "suspicious total_count row =
     (\<not> is_statewide_row row \<and> precincts_with_votes (drop 2 row) = total_count)"

definition row_flag :: "nat \<Rightarrow> cell list \<Rightarrow> string list" where
  "row_flag total_count row =
     (if suspicious total_count row then [suspicious_message (row_title row) (row ! 1)] else [])"

definition checkable :: "cell list \<Rightarrow> bool" where
  "checkable row = (2 \<le> length row \<and> (case row ! 0 of CInt n \<Rightarrow> n = 0 | _ \<Rightarrow> True))"

text \<open>
  The key cells of a row.  \<open>rows_fit\<close>: every row has its two key cells and a cell for
  every precinct index.  A run is well formed when there is a file, every header cell
  is a text or empty, every row has at least two cells and at least as many as the
  header, no file has more rows than the first one, and the race titles of the first
  file are texts or empty.
\<close>

definition row_key :: "cell list \<Rightarrow> cell \<times> cell" where
  "row_key row = (row ! 0, row ! 1)"

definition base_cells :: "sheet \<Rightarrow> nat \<Rightarrow> cell list" where
  "base_cells first_ws k = [rows first_ws ! k ! 0, rows first_ws ! k ! 1]"

definition rows_fit :: "nat list \<Rightarrow> cell list list \<Rightarrow> bool" where
  "rows_fit idx rs = (\<forall>row \<in> set rs. 2 \<le> length row \<and> (\<forall>i \<in> set idx. i < length row))"

definition well_formed_run :: "sheet list \<Rightarrow> bool" where
  "well_formed_run files =
     (files \<noteq> []
      \<and> (\<forall>ws \<in> set files.
            (\<forall>h \<in> set (header ws). is_text_or_empty h)
            \<and> (\<forall>row \<in> set (rows ws). 2 \<le> length row \<and> length (header ws) \<le> length row)
            \<and> length (rows ws) \<le> length (rows (hd files)))
      \<and> (\<forall>row \<in> set (rows (hd files)). is_text_or_empty (row ! 0)))"

text \<open>
  The cells that a county frame gives to the row of a key in the key-based merger: the
  cells of its entry for the key, or a missing value for each of its precinct columns
  when it has no entry for the key.  The two key cells of a row of the written table.
\<close>

definition frame_cells :: "county_frame \<Rightarrow> string \<times> string \<Rightarrow> cell list" where
  "frame_cells df k =
     (case map_of (entries df) k of
        None \<Rightarrow> replicate (length (precincts df)) CNone
      | Some vs \<Rightarrow> vs)"

definition key_cells :: "string \<times> string \<Rightarrow> cell \<times> cell" where
  "key_cells k = (CStr (fst k), CStr (snd k))"

text \<open>The rows of the output of the flat parser; none when it raised.\<close>

definition new_rows_of :: "py_error + cleaned \<Rightarrow> cell list list" where
  "new_rows_of r = (case r of Inl e \<Rightarrow> [] | Inr out \<Rightarrow> new_rows out)"



section \<open>Example inputs\<close>

text \<open>
  Small county files for the merger.  Polk lists the rows of Adair in the opposite
  order, Story has one row only, for a candidate Adair does not have, and Linn has one
  row more than Adair.  Ward has ten precincts, a Governor row with votes in one of
  them and a State Rep row with votes in all of them; Clay has a single Governor row
  with votes in one of four precincts.
\<close>

definition adair_sheet :: sheet where
  "adair_sheet =
     \<lparr>county_name = ''Adair'',
      header = [CStr ''RaceTitle'', CStr ''CandidateName'', CStr ''PoliticalPartyName'',
                CStr ''Adair-1''],
      rows = [[CStr ''President'', CStr ''A'', CStr ''REP'', CInt 5],
              [CStr ''State Rep 1'', CStr ''B'', CStr ''DEM'', CInt 7]]\<rparr>"

definition polk_sheet :: sheet where
  "polk_sheet =
     \<lparr>county_name = ''Polk'',
      header = [CStr ''RaceTitle'', CStr ''CandidateName'', CStr ''Polk-1'', CStr ''Polk-2''],
      rows = [[CStr ''State Rep 1'', CStr ''B'', CInt 1, CInt 2],
              [CStr ''President'', CStr ''A'', CInt 3, CNone]]\<rparr>"

definition story_sheet :: sheet where
  "story_sheet =
     \<lparr>county_name = ''Story'',
      header = [CStr ''RaceTitle'', CStr ''CandidateName'', CStr ''Story-1''],
      rows = [[CStr ''State Sen 9'', CStr ''C'', CInt 6]]\<rparr>"

definition linn_sheet :: sheet where
  "linn_sheet =
     \<lparr>county_name = ''Linn'',
      header = [CStr ''RaceTitle'', CStr ''CandidateName'', CStr ''Linn-1''],
      rows = [[CStr ''President'', CStr ''A'', CInt 4],
              [CStr ''State Rep 1'', CStr ''B'', CInt 2],
              [CStr ''State Rep 2'', CStr ''D'', CInt 9]]\<rparr>"

definition ward_sheet :: sheet where
  "ward_sheet =
     \<lparr>county_name = ''Ward'',
      header = [CStr ''RaceTitle'', CStr ''CandidateName'', CStr ''W-1'', CStr ''W-2'',
                CStr ''W-3'', CStr ''W-4'', CStr ''W-5'', CStr ''W-6'', CStr ''W-7'',
                CStr ''W-8'', CStr ''W-9'', CStr ''W-10''],
      rows = [[CStr ''Governor'', CStr ''G'', CInt 3, CInt 0, CInt 0, CInt 0, CInt 0, CInt 0,
               CInt 0, CInt 0, CInt 0, CNone],
              [CStr ''State Rep 5'', CStr ''H'', CInt 1, CInt 1, CInt 1, CInt 1, CInt 1,
               CInt 1, CInt 1, CInt 1, CInt 1, CInt 1]]\<rparr>"

definition governor_sheet :: sheet where
  "governor_sheet =
     \<lparr>county_name = ''Clay'',
      header = [CStr ''RaceTitle'', CStr ''CandidateName'', CStr ''Clay-1'', CStr ''Clay-2'',
                CStr ''Clay-3'', CStr ''Clay-4''],
      rows = [[CStr ''Governor'', CStr ''G'', CInt 3, CInt 0, CInt 0, CNone]]\<rparr>"

text \<open>
  A flat statewide sheet with a blank and a text vote cell, and a sheet of the
  multi-sheet format with three candidates, the last of which has no total column, and
  with an empty vote cell for Bob in precinct P1.
\<close>

definition blank_sheet :: sheet where
  "blank_sheet =
     \<lparr>county_name = ''Polk'',
      header = [CStr ''RaceTitle'', CStr ''CandidateName'', CStr ''Polk-1 Total'',
                CStr ''Polk-1 Absentee'', CStr ''Polk-2 Total'', CStr ''Polk Total''],
      rows = [[CStr ''President'', CStr ''A'', CNone, CInt 1, CStr ''n/a'', CInt 5],
              [CStr ''Judge Retention'', CStr ''J'', CInt 1, CInt 0, CInt 2, CInt 3],
              [CStr ''Governor'', CStr ''G'', CInt 4, CInt 2, CInt 0, CInt 4]]\<rparr>"


text \<open>
  Boone has the rows of Adair and, between them, a row for a write-in candidate, so it
  has one row more than Adair and its second row differs from the second row of Adair.
\<close>

definition boone_sheet :: sheet where
  "boone_sheet =
     \<lparr>county_name = ''Boone'',
      header = [CStr ''RaceTitle'', CStr ''CandidateName'', CStr ''Boone-1''],
      rows = [[CStr ''President'', CStr ''A'', CInt 4],
              [CStr ''President'', CStr ''Write-in'', CInt 1],
              [CStr ''State Rep 1'', CStr ''B'', CInt 2]]\<rparr>"

text \<open>
  Two county frames for the key-based merger.  Story has a candidate that Adair does
  not have, and does not have the State Rep candidate of Adair.
\<close>

definition adair_frame :: county_frame where
  "adair_frame =
     \<lparr>precincts = [''Adair-1''],
      entries = [((''President'', ''A''), [CInt 5]), ((''State Rep 1'', ''B''), [CInt 7])]\<rparr>"

definition story_frame :: county_frame where
  "story_frame =
     \<lparr>precincts = [''Story-1'', ''Story-2''],
      entries = [((''State Sen 9'', ''C''), [CInt 6, CInt 2]),
                 ((''President'', ''A''), [CInt 4, CNone])]\<rparr>"

section \<open>Properties of the column resolver\<close>

lemma startswith_iff: "startswith s p \<longleftrightarrow> (\<exists>q. s = p @ q)"
  by (induction s p rule: startswith.induct) auto

lemma endswith_iff: "endswith s p \<longleftrightarrow> (\<exists>q. s = q @ p)"
proof -
  have "(\<exists>q. rev s = rev p @ q) \<longleftrightarrow> (\<exists>q. s = q @ p)"
  proof
    assume "\<exists>q. rev s = rev p @ q"
    then obtain q where "rev s = rev p @ q" ..
    then have "s = rev q @ p" by (metis rev_append rev_rev_ident)
    then show "\<exists>q. s = q @ p" ..
  next
    assume "\<exists>q. s = q @ p"
    then obtain q where "s = q @ p" ..
    then have "rev s = rev p @ rev q" by simp
    then show "\<exists>q. rev s = rev p @ q" ..
  qed
  then show ?thesis by (simp add: endswith_def startswith_iff)
qed

lemma resolved_name_iff:
  "resolved_name t = Some n \<longleftrightarrow>
     (t \<in> set metadata_columns \<and> n = t) \<or>
     (t \<notin> set metadata_columns \<and> (\<exists>p. t = p @ '' Total'' \<and> CHR ''-'' \<in> set p \<and> n = p))"
  by (auto simp: resolved_name_def endswith_iff)

lemma columns_loop_eq:
  "\<forall>h \<in> set hs. is_text_or_empty h \<Longrightarrow>
   columns_loop i hs acc = Inr (acc @ concat (map kept_column (enumerate i hs)))"
proof (induction hs arbitrary: i acc)
  case Nil
  then show ?case by simp
next
  case (Cons h hs)
  then show ?case
    by (cases h) (auto simp: resolved_name_def Let_def)
qed

lemma kept_column_index: "(j, n) \<in> set (kept_column p) \<Longrightarrow> j = fst p"
  by (cases p rule: kept_column.cases) (auto split: option.splits)

lemma kept_columns_sorted:
  "sorted_wrt (<) (map fst (concat (map kept_column (enumerate i hs))))"
proof (induction hs arbitrary: i)
  case Nil
  then show ?case by simp
next
  case (Cons h hs)
  have later: "\<forall>x \<in> set (concat (map kept_column (enumerate (Suc i) hs))). i < fst x"
    by (auto simp: in_set_enumerate_eq dest!: kept_column_index)
  have here: "\<forall>x \<in> set (kept_column (i, h)). fst x = i"
    by (auto dest: kept_column_index)
  have one: "sorted_wrt (<) (map fst (kept_column (i, h)))"
    by (cases h) (auto split: option.splits)
  show ?case using Cons.IH [of "Suc i"] later here one
    by (auto simp: sorted_wrt_append)
qed

lemma kept_columns_member:
  "(j, n) \<in> set (concat (map kept_column (enumerate 0 hs))) \<longleftrightarrow>
   j < length hs \<and> (\<exists>s. hs ! j = CStr s \<and> resolved_name (strip s) = Some n)"
proof
  assume "(j, n) \<in> set (concat (map kept_column (enumerate 0 hs)))"
  then obtain k c where kc: "(k, c) \<in> set (enumerate 0 hs)" "(j, n) \<in> set (kept_column (k, c))"
    by auto
  then have "j = k" by (auto dest: kept_column_index)
  with kc show "j < length hs \<and> (\<exists>s. hs ! j = CStr s \<and> resolved_name (strip s) = Some n)"
    by (cases c) (auto simp: in_set_enumerate_eq split: option.splits)
next
  assume a: "j < length hs \<and> (\<exists>s. hs ! j = CStr s \<and> resolved_name (strip s) = Some n)"
  then obtain s where s: "hs ! j = CStr s" "resolved_name (strip s) = Some n" by auto
  from a have "(j, CStr s) \<in> set (enumerate 0 hs)" using s by (auto simp: in_set_enumerate_eq)
  moreover have "(j, n) \<in> set (kept_column (j, CStr s))" using s by simp
  ultimately show "(j, n) \<in> set (concat (map kept_column (enumerate 0 hs)))"
    by (metis (no_types, lifting) UN_I set_concat set_map image_eqI)
qed

text \<open>
  Claim C5.  For a header row whose cells are texts or empty, \<open>get_columns_to_keep\<close>
  returns a list \<open>out\<close> such that: a pair \<open>(i, n)\<close> is in \<open>out\<close> exactly when column
  \<open>i\<close> holds a text whose trimmed form either is one of the three metadata names (and
  then \<open>n\<close> is that name), or is not a metadata name, ends with \<open>" Total"\<close>, and the
  part \<open>n\<close> before that suffix contains a hyphen; the column indices of \<open>out\<close> are
  strictly increasing, so the source order is kept and no column is listed twice; and
  every name in \<open>out\<close> is a metadata name or contains a hyphen.
\<close>

theorem column_resolver_output:
  assumes "\<forall>h \<in> set header_row. is_text_or_empty h"
  shows "\<exists>out. get_columns_to_keep header_row = Inr out
     \<and> (\<forall>i n. (i, n) \<in> set out \<longleftrightarrow>
           i < length header_row \<and>
           (\<exists>s. header_row ! i = CStr s \<and>
              ((strip s \<in> set metadata_columns \<and> n = strip s) \<or>
               (strip s \<notin> set metadata_columns \<and>
                (\<exists>p. strip s = p @ '' Total'' \<and> CHR ''-'' \<in> set p \<and> n = p)))))
     \<and> sorted_wrt (<) (map fst out)
     \<and> (\<forall>(i, n) \<in> set out. n \<in> set metadata_columns \<or> CHR ''-'' \<in> set n)"
proof -
  let ?out = "concat (map kept_column (enumerate 0 header_row))"
  have eq: "get_columns_to_keep header_row = Inr ?out"
    using columns_loop_eq [OF assms, of 0 "[]"] by (simp add: get_columns_to_keep_def)
  have mem: "\<forall>i n. (i, n) \<in> set ?out \<longleftrightarrow>
           i < length header_row \<and>
           (\<exists>s. header_row ! i = CStr s \<and>
              ((strip s \<in> set metadata_columns \<and> n = strip s) \<or>
               (strip s \<notin> set metadata_columns \<and>
                (\<exists>p. strip s = p @ '' Total'' \<and> CHR ''-'' \<in> set p \<and> n = p))))"
    by (simp only: kept_columns_member resolved_name_iff simp_thms)
  have hy: "\<forall>(i, n) \<in> set ?out. n \<in> set metadata_columns \<or> CHR ''-'' \<in> set n"
  proof (clarify)
    fix i n
    assume "(i, n) \<in> set ?out" "CHR ''-'' \<notin> set n"
    then obtain s where "resolved_name (strip s) = Some n"
      unfolding kept_columns_member by (elim conjE exE)
    with \<open>CHR ''-'' \<notin> set n\<close> show "n \<in> set metadata_columns"
      unfolding resolved_name_iff by (elim disjE conjE exE) simp_all
  qed
  show ?thesis
    by (rule exI [of _ ?out]) (intro conjI eq mem hy kept_columns_sorted)
qed

theorem column_resolver_output_witness:
  "\<exists>out. get_columns_to_keep
       [CStr ''RaceTitle'', CStr '' CandidateName'', CNone, CStr ''Polk Total'',
        CStr ''Polk-1 Total '', CStr ''Polk-1 Absentee''] = Inr out
     \<and> out = [(0, ''RaceTitle''), (1, ''CandidateName''), (4, ''Polk-1'')]
     \<and> sorted_wrt (<) (map fst out)"
proof -
  let ?hdr = "[CStr ''RaceTitle'', CStr '' CandidateName'', CNone, CStr ''Polk Total'',
        CStr ''Polk-1 Total '', CStr ''Polk-1 Absentee'']"
  have h: "\<forall>h \<in> set ?hdr. is_text_or_empty h" by simp
  have v: "get_columns_to_keep ?hdr
             = Inr [(0, ''RaceTitle''), (1, ''CandidateName''), (4, ''Polk-1'')]"
    by code_simp
  from column_resolver_output [OF h] obtain out where
    a: "get_columns_to_keep ?hdr = Inr out" and c: "sorted_wrt (<) (map fst out)"
    by (elim exE conjE)
  from a v have o: "out = [(0, ''RaceTitle''), (1, ''CandidateName''), (4, ''Polk-1'')]"
    by (simp only: sum.inject)
  show ?thesis
    by (rule exI [of _ out]) (intro conjI a o c)
qed

text \<open>A header cell that holds a number makes the resolver raise.\<close>

lemma column_resolver_number_header:
  "get_columns_to_keep [CStr ''RaceTitle'', CInt 2016] = Inl AttributeError"
  by code_simp

text \<open>A no-break space after the suffix is trimmed like any other whitespace.\<close>

lemma column_resolver_no_break_space:
  "get_columns_to_keep [CStr (''Polk-1 Total'' @ [CHR 0xA0])] = Inr [(0, ''Polk-1'')]"
  by code_simp

section \<open>Properties of the race classifier\<close>

lemma contains_any_iff: "contains_any s ps \<longleftrightarrow> (\<exists>p \<in> set ps. contains s p)"
  by (simp add: contains_any_def list_ex_iff)

lemma contains_iff: "contains s p \<longleftrightarrow> (\<exists>a b. s = a @ p @ b)"
proof (induction s)
  case Nil
  then show ?case by auto
next
  case (Cons c cs)
  show ?case
  proof
    assume "contains (c # cs) p"
    then consider "startswith (c # cs) p" | "contains cs p" by auto
    then show "\<exists>a b. c # cs = a @ p @ b"
    proof cases
      case 1
      then obtain q where "c # cs = p @ q" by (auto simp: startswith_iff)
      then have "c # cs = [] @ p @ q" by simp
      then show ?thesis by blast
    next
      case 2
      then obtain a b where "cs = a @ p @ b" using Cons.IH by blast
      then have "c # cs = (c # a) @ p @ b" by simp
      then show ?thesis by blast
    qed
  next
    assume "\<exists>a b. c # cs = a @ p @ b"
    then obtain a b where ab: "c # cs = a @ p @ b" by blast
    show "contains (c # cs) p"
    proof (cases a)
      case Nil
      with ab have "startswith (c # cs) p" by (auto simp: startswith_iff)
      then show ?thesis by simp
    next
      case (Cons x a')
      with ab have "cs = a' @ p @ b" by simp
      then have "contains cs p" using Cons.IH by blast
      then show ?thesis by simp
    qed
  qed
qed

text \<open>
  The part of the classifier that holds: an absent or numeric title is rejected, the
  empty title is rejected, and a title is accepted exactly when its lower-case form
  contains one of the eight keywords of \<open>races_to_keep\<close>.
\<close>

lemma is_race_we_want_iff:
  "is_race_we_want c \<longleftrightarrow>
     (\<exists>t k a b. c = CStr t \<and> k \<in> set races_to_keep \<and> lower t = a @ k @ b)"
  by (cases c) (auto simp: contains_any_iff contains_iff)

lemma is_race_we_want_empty: "is_race_we_want (CStr []) = False"
  by code_simp

text \<open>
  Claim C6.  The claim asks that every spelling of a tracked office is accepted,
  \<open>United States Senator\<close> among them.  \<open>is_race_we_want\<close> rejects that title: none of
  its keywords occurs in it.  The other classifier of the repository, \<open>filter_races\<close>,
  lists that spelling and accepts the title, but rejects \<open>U.S. Senator\<close> and
  \<open>State Senator\<close>, which \<open>is_race_we_want\<close> accepts.
\<close>

theorem race_classifier_spelling_gap:
  "is_race_we_want (CStr ''United States Senator'') = False
   \<and> filter_races_mask (CStr ''United States Senator'') = True
   \<and> is_race_we_want (CStr ''U.S. Senator'') = True
   \<and> filter_races_mask (CStr ''U.S. Senator'') = False
   \<and> is_race_we_want (CStr ''State Senator District 3'') = True
   \<and> filter_races_mask (CStr ''State Senator District 3'') = False"
  by code_simp

section \<open>Properties of the county merger\<close>

lemma get_Inr_iff: "get xs i = Inr v \<longleftrightarrow> i < length xs \<and> v = xs ! i"
  by (auto simp: get_def)

lemma get_Inl_iff: "get xs i = Inl e \<longleftrightarrow> \<not> i < length xs \<and> e = IndexError"
  by (auto simp: get_def)

lemma pick_ok:
  "\<forall>i \<in> set idx. i < length row \<Longrightarrow> pick row idx = Inr (map ((!) row) idx)"
  by (induction idx) (auto simp: get_def)

lemma pick_Inr:
  "pick row idx = Inr vs \<Longrightarrow> (\<forall>i \<in> set idx. i < length row) \<and> vs = map ((!) row) idx"
  by (induction idx arbitrary: vs) (auto simp: get_def split: sum.splits if_splits)

lemma pick_Inr_iff:
  "pick row idx = Inr vs \<longleftrightarrow> (\<forall>i \<in> set idx. i < length row) \<and> vs = map ((!) row) idx"
  using pick_ok pick_Inr by blast

lemma pick_Inl_iff:
  "pick row idx = Inl e \<longleftrightarrow> \<not> (\<forall>i \<in> set idx. i < length row) \<and> e = IndexError"
proof (induction idx)
  case Nil
  then show ?case by simp
next
  case (Cons i idx)
  show ?case
  proof (cases "i < length row")
    case False
    then show ?thesis by (auto simp: get_def)
  next
    case True
    show ?thesis
    proof (cases "pick row idx")
      case (Inl x)
      with True Cons.IH show ?thesis by (auto simp: get_def)
    next
      case (Inr vs)
      with True pick_Inr [OF Inr] show ?thesis by (auto simp: get_def)
    qed
  qed
qed

lemma precinct_columns_Inr:
  "precinct_columns i hs = Inr pcs \<Longrightarrow> pcs = concat (map precinct_pair (enumerate i hs))"
proof (induction hs arbitrary: i pcs)
  case Nil
  then show ?case by simp
next
  case (Cons h hs)
  then show ?case
    by (cases h) (auto simp: precinct_pair_def split: sum.splits if_splits)
qed

lemma precinct_columns_total:
  "\<forall>h \<in> set hs. is_text_or_empty h \<Longrightarrow> \<exists>pcs. precinct_columns i hs = Inr pcs"
proof (induction hs arbitrary: i)
  case Nil
  then show ?case by simp
next
  case (Cons h hs)
  then obtain pcs where "precinct_columns (Suc i) hs = Inr pcs" by fastforce
  with Cons.prems show ?case by (cases h) auto
qed

lemma precinct_columns_error:
  "precinct_columns i hs = Inl e \<Longrightarrow> e = AttributeError \<and> \<not> (\<forall>h \<in> set hs. is_text_or_empty h)"
proof (induction hs arbitrary: i)
  case Nil
  then show ?case by simp
next
  case (Cons h hs)
  then show ?case
    by (cases h) (auto split: sum.splits if_splits)
qed

lemma add_row_Inr_iff:
  "add_row county base idx k row st = Inr st' \<longleftrightarrow>
     2 \<le> length row \<and> (\<forall>i \<in> set idx. i < length row) \<and> k < length (snd st)
     \<and> st' = (fst st @ row_mismatch county base (k, row),
              (snd st)[k := snd st ! k @ map ((!) row) idx])"
  by (auto simp: add_row_def row_mismatch_def get_Inr_iff get_Inl_iff pick_Inr_iff pick_Inl_iff
      Let_def split: sum.splits)

lemma add_row_Inl:
  "add_row county base idx k row st = Inl e \<Longrightarrow> e = IndexError"
  by (auto simp: add_row_def get_Inr_iff get_Inl_iff pick_Inr_iff pick_Inl_iff
      Let_def split: sum.splits if_splits)

lemma add_rows_Inr:
  "add_rows county base idx k rs st = Inr st' \<Longrightarrow>
     (rs = [] \<or> k + length rs \<le> length (snd st)) \<and> rows_fit idx rs \<and>
     fst st' = fst st @ concat (map (row_mismatch county base) (enumerate k rs)) \<and>
     length (snd st') = length (snd st) \<and>
     (\<forall>j < length (snd st). snd st' ! j =
        (if k \<le> j \<and> j < k + length rs then snd st ! j @ map ((!) (rs ! (j - k))) idx
         else snd st ! j))"
proof (induction rs arbitrary: k st)
  case Nil
  then show ?case by (auto simp: rows_fit_def)
next
  case (Cons row rest)
  from Cons.prems obtain st1 where
    s1: "add_row county base idx k row st = Inr st1" and
    s2: "add_rows county base idx (Suc k) rest st1 = Inr st'"
    by (auto split: sum.splits)
  from s1 have row: "2 \<le> length row" "\<forall>i \<in> set idx. i < length row" "k < length (snd st)"
    and st1: "st1 = (fst st @ row_mismatch county base (k, row),
                    (snd st)[k := snd st ! k @ map ((!) row) idx])"
    by (simp_all add: add_row_Inr_iff)
  note ih = Cons.IH [OF s2]
  have len1: "length (snd st1) = length (snd st)" by (simp add: st1)
  have a: "k + length (row # rest) \<le> length (snd st)"
    using ih row(3) len1 by auto
  have b: "rows_fit idx (row # rest)"
    using ih row by (simp add: rows_fit_def)
  have c: "fst st' = fst st @ concat (map (row_mismatch county base) (enumerate k (row # rest)))"
    using ih by (simp add: st1)
  have d: "length (snd st') = length (snd st)"
    using ih len1 by simp
  have e: "\<forall>j < length (snd st). snd st' ! j =
        (if k \<le> j \<and> j < k + length (row # rest)
         then snd st ! j @ map ((!) ((row # rest) ! (j - k))) idx
         else snd st ! j)"
  proof (intro allI impI)
    fix j assume j: "j < length (snd st)"
    then have "snd st' ! j =
        (if Suc k \<le> j \<and> j < Suc k + length rest
         then snd st1 ! j @ map ((!) (rest ! (j - Suc k))) idx else snd st1 ! j)"
      using ih len1 by simp
    moreover have "snd st1 ! j = (if j = k then snd st ! k @ map ((!) row) idx else snd st ! j)"
      using j by (simp add: st1 nth_list_update)
    ultimately show "snd st' ! j =
        (if k \<le> j \<and> j < k + length (row # rest)
         then snd st ! j @ map ((!) ((row # rest) ! (j - k))) idx
         else snd st ! j)"
      by (cases "j = k") (auto simp: nth_Cons' Suc_diff_Suc)
  qed
  from a b c d e show ?case by blast
qed

lemma add_rows_total:
  "rows_fit idx rs \<Longrightarrow> k + length rs \<le> length (snd st) \<Longrightarrow>
   \<exists>st'. add_rows county base idx k rs st = Inr st'"
proof (induction rs arbitrary: k st)
  case Nil
  then show ?case by simp
next
  case (Cons row rest)
  let ?st1 = "(fst st @ row_mismatch county base (k, row),
               (snd st)[k := snd st ! k @ map ((!) row) idx])"
  have s1: "add_row county base idx k row st = Inr ?st1"
    using Cons.prems by (simp add: add_row_Inr_iff rows_fit_def)
  have "\<exists>st'. add_rows county base idx (Suc k) rest ?st1 = Inr st'"
    using Cons.prems by (intro Cons.IH) (simp_all add: rows_fit_def)
  with s1 show ?case by simp
qed

lemma add_rows_Inl:
  "add_rows county base idx k rs st = Inl e \<Longrightarrow> e = IndexError"
  by (induction rs arbitrary: k st) (auto split: sum.splits dest: add_row_Inl)

lemma add_rows_too_long:
  assumes "k \<le> length (snd st)" "length (snd st) < k + length rs"
  shows "add_rows county base idx k rs st = Inl IndexError"
proof (cases "add_rows county base idx k rs st")
  case (Inl e)
  then show ?thesis using add_rows_Inl by blast
next
  case (Inr st')
  from add_rows_Inr [OF Inr] assms show ?thesis by auto
qed

lemma add_file_Inr:
  assumes "add_file base ws m = Inr m'"
  shows "merged_headers m' = merged_headers m @ precinct_names ws"
    and "total_precincts m' = total_precincts m + length (precinct_indices ws)"
    and "problems_found m' = problems_found m @ file_mismatches base ws"
    and "length (merged_data m') = length (merged_data m)"
    and "\<forall>j < length (merged_data m). merged_data m' ! j = merged_data m ! j @ contribution ws j"
    and "length (rows ws) \<le> length (merged_data m)"
proof -
  from assms obtain pcs st where
    p: "precinct_columns 0 (header ws) = Inr pcs" and
    r: "add_rows (county_name ws) base (map fst pcs) 0 (rows ws)
          (problems_found m, merged_data m) = Inr st" and
    m': "m' = \<lparr>merged_headers = merged_headers m @ map snd pcs,
               total_precincts = total_precincts m + length pcs,
               problems_found = fst st, merged_data = snd st\<rparr>"
    by (auto simp: add_file_def split: sum.splits)
  from precinct_columns_Inr [OF p] have pcs: "pcs = precinct_pairs ws"
    by (simp add: precinct_pairs_def)
  note ar = add_rows_Inr [OF r]
  show "merged_headers m' = merged_headers m @ precinct_names ws"
    by (simp add: m' pcs precinct_names_def)
  show "total_precincts m' = total_precincts m + length (precinct_indices ws)"
    by (simp add: m' pcs precinct_indices_def)
  show "problems_found m' = problems_found m @ file_mismatches base ws"
    using ar by (simp add: m' file_mismatches_def)
  show "length (merged_data m') = length (merged_data m)"
    using ar by (simp add: m')
  show "length (rows ws) \<le> length (merged_data m)"
    using ar by auto
  show "\<forall>j < length (merged_data m). merged_data m' ! j = merged_data m ! j @ contribution ws j"
    using ar by (simp add: m' contribution_def pcs precinct_indices_def)
qed

lemma add_file_total:
  assumes "\<forall>h \<in> set (header ws). is_text_or_empty h"
    and "rows_fit (precinct_indices ws) (rows ws)"
    and "length (rows ws) \<le> length (merged_data m)"
  shows "\<exists>m'. add_file base ws m = Inr m'"
proof -
  from precinct_columns_total [OF assms(1)] obtain pcs where
    p: "precinct_columns 0 (header ws) = Inr pcs" by blast
  from precinct_columns_Inr [OF p] have pcs: "map fst pcs = precinct_indices ws"
    by (simp add: precinct_pairs_def precinct_indices_def)
  have "\<exists>st'. add_rows (county_name ws) base (map fst pcs) 0 (rows ws)
          (problems_found m, merged_data m) = Inr st'"
    using assms(2,3) by (intro add_rows_total) (simp_all add: pcs)
  then show ?thesis using p by (auto simp: add_file_def)
qed

lemma add_file_Inl:
  assumes "add_file base ws m = Inl e"
  shows "e = IndexError \<or> (e = AttributeError \<and> \<not> (\<forall>h \<in> set (header ws). is_text_or_empty h))"
  using assms
  by (auto simp: add_file_def split: sum.splits dest: precinct_columns_error add_rows_Inl)

lemma add_file_too_long:
  assumes "length (merged_data m) < length (rows ws)"
  shows "\<exists>e. add_file base ws m = Inl e"
proof (cases "add_file base ws m")
  case (Inl e)
  then show ?thesis by blast
next
  case (Inr m')
  from add_file_Inr(6) [OF Inr] assms show ?thesis by simp
qed

lemma add_files_Inr:
  assumes "add_files base files m = Inr m'"
  shows "merged_headers m' = merged_headers m @ concat (map precinct_names files)
    \<and> total_precincts m' = total_precincts m + sum_list (map (\<lambda>ws. length (precinct_indices ws)) files)
    \<and> problems_found m' = problems_found m @ concat (map (file_mismatches base) files)
    \<and> length (merged_data m') = length (merged_data m)
    \<and> (\<forall>j < length (merged_data m).
          merged_data m' ! j = merged_data m ! j @ concat (map (\<lambda>ws. contribution ws j) files))
    \<and> (\<forall>ws \<in> set files. length (rows ws) \<le> length (merged_data m))"
  using assms
proof (induction files arbitrary: m)
  case Nil
  then show ?case by simp
next
  case (Cons ws rest)
  from Cons.prems obtain m1 where
    f: "add_file base ws m = Inr m1" and r: "add_files base rest m1 = Inr m'"
    by (auto split: sum.splits)
  note a = add_file_Inr [OF f]
  note ih = Cons.IH [OF r]
  show ?case using a ih by simp
qed

lemma add_files_total:
  assumes "\<forall>ws \<in> set files. (\<forall>h \<in> set (header ws). is_text_or_empty h)
             \<and> rows_fit (precinct_indices ws) (rows ws)
             \<and> length (rows ws) \<le> length (merged_data m)"
  shows "\<exists>m'. add_files base files m = Inr m'"
  using assms
proof (induction files arbitrary: m)
  case Nil
  then show ?case by simp
next
  case (Cons ws rest)
  then obtain m1 where f: "add_file base ws m = Inr m1"
    using add_file_total [of ws m base] by auto
  from add_file_Inr(4) [OF f] Cons.prems
  have "\<exists>m'. add_files base rest m1 = Inr m'"
    by (intro Cons.IH) simp
  with f show ?case by simp
qed

lemma add_files_too_long:
  assumes "ws \<in> set files" "length (merged_data m) < length (rows ws)"
  shows "\<exists>e. add_files base files m = Inl e
           \<and> ((\<forall>w \<in> set files. \<forall>h \<in> set (header w). is_text_or_empty h) \<longrightarrow> e = IndexError)"
  using assms
proof (induction files arbitrary: m)
  case Nil
  then show ?case by simp
next
  case (Cons w rest)
  show ?case
  proof (cases "add_file base w m")
    case (Inl e)
    then show ?thesis using add_file_Inl [OF Inl] by auto
  next
    case (Inr m1)
    from add_file_Inr(4,6) [OF Inr] Cons.prems have "ws \<in> set rest"
      and "length (merged_data m1) < length (rows ws)" by auto
    from Cons.IH [OF this] Inr show ?thesis by auto
  qed
qed

lemma start_rows_Inr_iff:
  "start_rows rs = Inr ds \<longleftrightarrow>
     (\<forall>row \<in> set rs. 2 \<le> length row) \<and> ds = map (\<lambda>row. [row ! 0, row ! 1]) rs"
proof (induction rs arbitrary: ds)
  case Nil
  then show ?case by auto
next
  case (Cons row rest)
  show ?case
  proof (cases "start_rows rest")
    case (Inl e)
    with Cons.IH show ?thesis by (auto simp: get_def split: sum.splits)
  next
    case (Inr ms)
    with Cons.IH [of ms] show ?thesis by (auto simp: get_def split: sum.splits)
  qed
qed

lemma start_rows_Inl: "start_rows rs = Inl e \<Longrightarrow> e = IndexError"
  by (induction rs) (auto simp: get_def split: sum.splits if_splits)

section \<open>Properties of the consistency checks\<close>

lemma check_columns_eq:
  "check_columns expected_cols i data ps =
     ps @ concat (map (column_finding expected_cols) (enumerate i data))"
  by (induction data arbitrary: i ps) (auto simp: column_finding_def)

lemma lower_Nil: "lower [] = []"
  by (simp add: lower_def)

lemma lowered_title_Inr_iff:
  "lowered_title c = Inr t \<longleftrightarrow> (case c of CInt n \<Rightarrow> n = 0 | _ \<Rightarrow> True)
     \<and> t = (case c of CStr s \<Rightarrow> lower s | _ \<Rightarrow> [])"
  by (cases c) (auto simp: lower_Nil)

lemma check_pattern_row_Inr_iff:
  "check_pattern_row total_count row ps = Inr ps' \<longleftrightarrow>
     checkable row \<and> ps' = ps @ row_flag total_count row"
proof (cases "2 \<le> length row")
  case False
  then show ?thesis
    by (auto simp: check_pattern_row_def checkable_def get_def split: sum.splits)
next
  case True
  then have g: "get row 0 = Inr (row ! 0)" "get row 1 = Inr (row ! 1)"
    by (auto simp: get_def)
  show ?thesis
  proof (cases "lowered_title (row ! 0)")
    case (Inl e)
    then have "\<not> checkable row"
      using lowered_title_Inr_iff [of "row ! 0"] by (auto simp: checkable_def)
    with Inl g show ?thesis by (simp add: check_pattern_row_def)
  next
    case (Inr t)
    then have c: "checkable row" and t: "t = row_title row"
      using True by (simp_all add: lowered_title_Inr_iff checkable_def row_title_def)
    show ?thesis
      using Inr g c
      by (auto simp: check_pattern_row_def t row_flag_def suspicious_def is_statewide_row_def
          Let_def)
  qed
qed

lemma check_patterns_Inr_iff:
  "check_patterns total_count data ps = Inr ps' \<longleftrightarrow>
     (\<forall>row \<in> set data. checkable row) \<and> ps' = ps @ concat (map (row_flag total_count) data)"
proof (induction data arbitrary: ps)
  case Nil
  then show ?case by auto
next
  case (Cons row rest)
  show ?case
  proof (cases "check_pattern_row total_count row ps")
    case (Inl e)
    then have "\<not> checkable row"
      using check_pattern_row_Inr_iff [of total_count row ps] by auto
    with Inl show ?thesis by simp
  next
    case (Inr ps1)
    then have "checkable row" "ps1 = ps @ row_flag total_count row"
      by (simp_all add: check_pattern_row_Inr_iff)
    with Inr Cons.IH [of ps1] show ?thesis by auto
  qed
qed

lemma check_pattern_row_Inl:
  "check_pattern_row total_count row ps = Inl e \<Longrightarrow> 2 \<le> length row \<Longrightarrow> e = AttributeError"
proof -
  assume a: "check_pattern_row total_count row ps = Inl e" and l: "2 \<le> length row"
  from l have g: "get row 0 = Inr (row ! 0)" "get row 1 = Inr (row ! 1)"
    by (auto simp: get_def)
  have t: "\<And>c. lowered_title c = Inl e \<Longrightarrow> e = AttributeError"
  proof -
    fix c show "lowered_title c = Inl e \<Longrightarrow> e = AttributeError"
      by (cases c) (auto split: if_splits)
  qed
  from a g show "e = AttributeError"
    by (auto simp: check_pattern_row_def Let_def split: sum.splits dest: t)
qed

lemma precinct_pairs_member:
  "(i, n) \<in> set (precinct_pairs ws) \<longleftrightarrow>
     i < length (header ws) \<and>
     (\<exists>s. header ws ! i = CStr s \<and> s \<noteq> [] \<and> strip s \<notin> set metadata_cols \<and> n = strip s)"
proof
  assume "(i, n) \<in> set (precinct_pairs ws)"
  then obtain k c where kc: "(k, c) \<in> set (enumerate 0 (header ws))"
    "(i, n) \<in> set (precinct_pair (k, c))"
    by (auto simp: precinct_pairs_def)
  then show "i < length (header ws) \<and>
     (\<exists>s. header ws ! i = CStr s \<and> s \<noteq> [] \<and> strip s \<notin> set metadata_cols \<and> n = strip s)"
    by (cases c) (auto simp: precinct_pair_def in_set_enumerate_eq split: if_splits)
next
  assume a: "i < length (header ws) \<and>
     (\<exists>s. header ws ! i = CStr s \<and> s \<noteq> [] \<and> strip s \<notin> set metadata_cols \<and> n = strip s)"
  then obtain s where s: "header ws ! i = CStr s" "s \<noteq> []" "strip s \<notin> set metadata_cols"
    "n = strip s" by auto
  from a s have "(i, CStr s) \<in> set (enumerate 0 (header ws))"
    by (auto simp: in_set_enumerate_eq)
  moreover have "(i, n) \<in> set (precinct_pair (i, CStr s))"
    using s by (simp add: precinct_pair_def)
  ultimately show "(i, n) \<in> set (precinct_pairs ws)"
    unfolding precinct_pairs_def set_concat set_map by blast
qed

lemma precinct_indices_bound:
  "i \<in> set (precinct_indices ws) \<Longrightarrow> i < length (header ws)"
  by (auto simp: precinct_indices_def precinct_pairs_member)

lemma precinct_names_not_metadata:
  "n \<in> set (precinct_names ws) \<Longrightarrow> n \<notin> set metadata_cols"
  by (auto simp: precinct_names_def precinct_pairs_member)

section \<open>The merge as a whole\<close>

lemma merge_Saved:
  assumes "merge_county_files files = Inr (Saved m report)"
  shows "files \<noteq> []"
    and "merged_headers m = ''RaceTitle'' # ''CandidateName'' # concat (map precinct_names files)"
    and "total_precincts m = sum_list (map (\<lambda>ws. length (precinct_indices ws)) files)"
    and "length (merged_data m) = length (rows (hd files))"
    and "\<forall>k < length (rows (hd files)).
           merged_data m ! k = base_cells (hd files) k @ concat (map (\<lambda>ws. contribution ws k) files)"
    and "\<forall>ws \<in> set files. length (rows ws) \<le> length (rows (hd files))"
    and "problems_found m =
           concat (map (file_mismatches (base_rows_of (hd files))) files)
           @ concat (map (column_finding (2 + total_precincts m)) (enumerate 0 (merged_data m)))
           @ concat (map (row_flag (total_precincts m)) (merged_data m))"
    and "report = report_lines (problems_found m)"
proof -
  from assms show ne: "files \<noteq> []"
    by (auto simp: merge_county_files_def)
  then obtain first_ws others where files: "files = first_ws # others"
    by (cases files) auto
  let ?m0 = "\<lambda>data0. \<lparr>merged_headers = [''RaceTitle'', ''CandidateName''],
                 total_precincts = 0, problems_found = [], merged_data = data0\<rparr>"
  from assms files obtain data0 m1 problems2 where
    s: "start_rows (rows first_ws) = Inr data0" and
    a: "add_files (base_rows_of first_ws) files (?m0 data0) = Inr m1" and
    c: "check_patterns (total_precincts m1) (merged_data m1)
          (check_columns (2 + total_precincts m1) 0 (merged_data m1) (problems_found m1))
          = Inr problems2" and
    m: "m = m1\<lparr>problems_found := problems2\<rparr>" and
    r: "report = report_lines problems2"
    by (auto simp: merge_county_files_def Let_def split: sum.splits)
  from s have data0: "data0 = map (\<lambda>row. [row ! 0, row ! 1]) (rows first_ws)"
    by (simp add: start_rows_Inr_iff)
  note af = add_files_Inr [OF a]
  show "merged_headers m = ''RaceTitle'' # ''CandidateName'' # concat (map precinct_names files)"
    using af by (simp add: m)
  show "total_precincts m = sum_list (map (\<lambda>ws. length (precinct_indices ws)) files)"
    using af by (simp add: m)
  show "length (merged_data m) = length (rows (hd files))"
    using af by (simp add: m data0 files)
  show "\<forall>k < length (rows (hd files)).
           merged_data m ! k = base_cells (hd files) k @ concat (map (\<lambda>ws. contribution ws k) files)"
    using af by (simp add: m data0 files base_cells_def)
  show "\<forall>ws \<in> set files. length (rows ws) \<le> length (rows (hd files))"
    using af by (simp add: data0 files)
  from c have "problems2 = problems_found m1
      @ concat (map (column_finding (2 + total_precincts m1)) (enumerate 0 (merged_data m1)))
      @ concat (map (row_flag (total_precincts m1)) (merged_data m1))"
    by (simp add: check_patterns_Inr_iff check_columns_eq)
  then show "problems_found m =
           concat (map (file_mismatches (base_rows_of (hd files))) files)
           @ concat (map (column_finding (2 + total_precincts m)) (enumerate 0 (merged_data m)))
           @ concat (map (row_flag (total_precincts m)) (merged_data m))"
    using af by (simp add: m files)
  show "report = report_lines (problems_found m)"
    by (simp add: r m)
qed

lemma well_formed_rows_fit:
  assumes "\<forall>row \<in> set (rows ws). 2 \<le> length row \<and> length (header ws) \<le> length row"
  shows "rows_fit (precinct_indices ws) (rows ws)"
  unfolding rows_fit_def
proof (intro ballI conjI)
  fix row assume r: "row \<in> set (rows ws)"
  with assms show "2 \<le> length row" by simp
  fix i assume "i \<in> set (precinct_indices ws)"
  then have "i < length (header ws)" by (rule precinct_indices_bound)
  with assms r show "i < length row" by fastforce
qed

lemma merge_total:
  assumes "well_formed_run files"
  shows "\<exists>m report. merge_county_files files = Inr (Saved m report)"
proof -
  from assms obtain first_ws others where files: "files = first_ws # others"
    by (cases files) (auto simp: well_formed_run_def)
  let ?data0 = "map (\<lambda>row. [row ! 0, row ! 1]) (rows first_ws)"
  let ?m0 = "\<lparr>merged_headers = [''RaceTitle'', ''CandidateName''],
                 total_precincts = 0, problems_found = [], merged_data = ?data0\<rparr>"
  have wf: "\<forall>ws \<in> set files.
            (\<forall>h \<in> set (header ws). is_text_or_empty h)
            \<and> (\<forall>row \<in> set (rows ws). 2 \<le> length row \<and> length (header ws) \<le> length row)
            \<and> length (rows ws) \<le> length (rows first_ws)"
    and titles: "\<forall>row \<in> set (rows first_ws). is_text_or_empty (row ! 0)"
    using assms by (simp_all add: well_formed_run_def files)
  have s: "start_rows (rows first_ws) = Inr ?data0"
    using wf by (simp add: start_rows_Inr_iff files)
  have pre: "\<forall>ws \<in> set files. (\<forall>h \<in> set (header ws). is_text_or_empty h)
             \<and> rows_fit (precinct_indices ws) (rows ws)
             \<and> length (rows ws) \<le> length (merged_data ?m0)"
  proof (rule ballI, intro conjI)
    fix ws assume w: "ws \<in> set files"
    with wf show "\<forall>h \<in> set (header ws). is_text_or_empty h" by blast
    from wf w show "rows_fit (precinct_indices ws) (rows ws)"
      by (intro well_formed_rows_fit) blast
    from wf w show "length (rows ws) \<le> length (merged_data ?m0)" by simp
  qed
  have "\<exists>m1. add_files (base_rows_of first_ws) files ?m0 = Inr m1"
    by (rule add_files_total [OF pre])
  then obtain m1 where a: "add_files (base_rows_of first_ws) files ?m0 = Inr m1" ..
  note af = add_files_Inr [OF a]
  have chk: "\<forall>row \<in> set (merged_data m1). checkable row"
  proof
    fix row assume "row \<in> set (merged_data m1)"
    then obtain k where k: "k < length (merged_data m1)" "row = merged_data m1 ! k"
      by (auto simp: in_set_conv_nth)
    with af have k': "k < length (rows first_ws)" by simp
    with af k have row: "row = [rows first_ws ! k ! 0, rows first_ws ! k ! 1]
        @ concat (map (\<lambda>ws. contribution ws k) files)" by simp
    from k' titles have "is_text_or_empty (rows first_ws ! k ! 0)" by simp
    then show "checkable row"
      by (cases "rows first_ws ! k ! 0") (simp_all add: row checkable_def)
  qed
  let ?p1 = "check_columns (2 + total_precincts m1) 0 (merged_data m1) (problems_found m1)"
  have "\<exists>p2. check_patterns (total_precincts m1) (merged_data m1) ?p1 = Inr p2"
    using chk by (simp add: check_patterns_Inr_iff)
  then obtain p2 where c: "check_patterns (total_precincts m1) (merged_data m1) ?p1 = Inr p2" ..
  show ?thesis
    using s a c by (simp add: merge_county_files_def files Let_def)
qed

section \<open>Alignment errors\<close>

lemma concat_map_memberI:
  "a \<in> set xs \<Longrightarrow> x \<in> set (f a) \<Longrightarrow> x \<in> set (concat (map f xs))"
  by auto

lemma well_formed_run_width:
  "well_formed_run files \<Longrightarrow> ws \<in> set files \<Longrightarrow> row \<in> set (rows ws) \<Longrightarrow> 2 \<le> length row"
  by (simp add: well_formed_run_def)

lemma base_rows_of_nth:
  "k < length (rows ws) \<Longrightarrow> 2 \<le> length (rows ws ! k) \<Longrightarrow>
   base_rows_of ws ! k = (rows ws ! k ! 0, rows ws ! k ! 1)"
  by (auto simp: base_rows_of_def cell_at_def)

lemma length_base_rows_of: "length (base_rows_of ws) = length (rows ws)"
  by (simp add: base_rows_of_def)

lemma row_mismatch_recorded:
  assumes "k < length (rows ws)" "k < length base" "(rows ws ! k ! 0, rows ws ! k ! 1) \<noteq> base ! k"
  shows "mismatch_message (county_name ws) (base ! k) (rows ws ! k ! 0, rows ws ! k ! 1)
           \<in> set (file_mismatches base ws)"
proof -
  have "(k, rows ws ! k) \<in> set (enumerate 0 (rows ws))"
    using assms(1) by (simp add: in_set_enumerate_eq)
  moreover have "mismatch_message (county_name ws) (base ! k) (rows ws ! k ! 0, rows ws ! k ! 1)
      \<in> set (row_mismatch (county_name ws) base (k, rows ws ! k))"
    using assms(2,3) by (cases "base ! k") (auto simp: row_mismatch_def)
  ultimately show ?thesis
    unfolding file_mismatches_def by (rule concat_map_memberI)
qed

text \<open>
  What the claim on alignment errors asks for holds in the runs that can come to an
  end.  Take a run whose files are rectangular with text or empty headers, at least two
  columns, no more data rows than the first file has, and text or empty race titles in
  the first file.  If row \<open>k\<close> of the file at position \<open>i\<close> names another (race title,
  candidate) pair than row \<open>k\<close> of the first file, then the merge runs to its end, the
  list of problems holds the ``Row mismatch'' finding for that file and row, the
  printed report is made from that list, and row \<open>k\<close> of the merged data holds, after
  the cells of the files before it, the precinct cells of row \<open>k\<close> of that file.
\<close>

lemma mismatch_recorded_in_complete_run:
  assumes "well_formed_run files"
    and "i < length files" and "k < length (rows (files ! i))"
    and "(rows (files ! i) ! k ! 0, rows (files ! i) ! k ! 1)
           \<noteq> (rows (hd files) ! k ! 0, rows (hd files) ! k ! 1)"
  shows "\<exists>m report. merge_county_files files = Inr (Saved m report)
     \<and> mismatch_message (county_name (files ! i))
          (rows (hd files) ! k ! 0, rows (hd files) ! k ! 1)
          (rows (files ! i) ! k ! 0, rows (files ! i) ! k ! 1) \<in> set (problems_found m)
     \<and> report = report_lines (problems_found m)
     \<and> merged_data m ! k =
          base_cells (hd files) k
          @ concat (map (\<lambda>w. contribution w k) (take i files))
          @ map ((!) (rows (files ! i) ! k)) (precinct_indices (files ! i))
          @ concat (map (\<lambda>w. contribution w k) (drop (Suc i) files))"
proof -
  let ?ws = "files ! i" and ?first = "hd files"
  from merge_total [OF assms(1)] obtain m report where
    mr: "merge_county_files files = Inr (Saved m report)" by (elim exE)
  note ms = merge_Saved [OF mr]
  have ws: "?ws \<in> set files" using assms(2) by simp
  have first: "?first \<in> set files" using ms(1) by simp
  have "length (rows ?ws) \<le> length (rows ?first)" using ms(6) ws by (rule bspec)
  then have klen: "k < length (rows ?first)" using assms(3) by simp
  then have "rows ?first ! k \<in> set (rows ?first)" by simp
  then have w2: "2 \<le> length (rows ?first ! k)"
    by (rule well_formed_run_width [OF assms(1) first])
  have base: "base_rows_of ?first ! k = (rows ?first ! k ! 0, rows ?first ! k ! 1)"
    using klen w2 by (rule base_rows_of_nth)
  have "mismatch_message (county_name ?ws) (base_rows_of ?first ! k)
          (rows ?ws ! k ! 0, rows ?ws ! k ! 1) \<in> set (file_mismatches (base_rows_of ?first) ?ws)"
    using assms(3,4) klen by (intro row_mismatch_recorded) (simp_all add: length_base_rows_of base)
  then have "mismatch_message (county_name ?ws) (base_rows_of ?first ! k)
          (rows ?ws ! k ! 0, rows ?ws ! k ! 1)
          \<in> set (concat (map (file_mismatches (base_rows_of ?first)) files))"
    by (rule concat_map_memberI [OF ws])
  then have msg: "mismatch_message (county_name ?ws)
          (rows ?first ! k ! 0, rows ?first ! k ! 1)
          (rows ?ws ! k ! 0, rows ?ws ! k ! 1) \<in> set (problems_found m)"
    unfolding ms(7) base by simp
  have split: "files = take i files @ ?ws # drop (Suc i) files"
    using assms(2) by (simp add: id_take_nth_drop)
  have "concat (map (\<lambda>w. contribution w k) files) =
      concat (map (\<lambda>w. contribution w k) (take i files))
      @ contribution ?ws k
      @ concat (map (\<lambda>w. contribution w k) (drop (Suc i) files))"
    by (subst split) (simp del: append_take_drop_id)
  moreover have "contribution ?ws k = map ((!) (rows ?ws ! k)) (precinct_indices ?ws)"
    using assms(3) by (simp add: contribution_def)
  ultimately have data: "merged_data m ! k =
          base_cells ?first k
          @ concat (map (\<lambda>w. contribution w k) (take i files))
          @ map ((!) (rows ?ws ! k)) (precinct_indices ?ws)
          @ concat (map (\<lambda>w. contribution w k) (drop (Suc i) files))"
    using ms(5) klen by simp
  show ?thesis
    by (intro exI conjI) (rule mr, rule msg, rule ms(8), rule data)
qed

text \<open>
  Claim C1.  The claim speaks of every run, and there it fails.  Boone has one row more
  than Adair, and its second row names another candidate than the second row of Adair.
  The loop over the rows of Boone records the ``Row mismatch'' finding for that row and
  attaches its votes; at the third row \<open>merged_data[row_index].extend\<close> raises
  \<open>IndexError\<close>, so the run ends with that error: nothing is reported and nothing is
  saved.  The comparison with \<open>base_rows\<close> is guarded by
  \<open>row_index < len(base_rows)\<close>, the \<open>extend\<close> after it is not.
\<close>

theorem mismatch_then_longer_file_aborts:
  "(rows boone_sheet ! 1 ! 0, rows boone_sheet ! 1 ! 1)
     \<noteq> (rows adair_sheet ! 1 ! 0, rows adair_sheet ! 1 ! 1)
   \<and> add_rows (county_name boone_sheet) (base_rows_of adair_sheet) [2] 0
         (take 2 (rows boone_sheet))
         ([], [[CStr ''President'', CStr ''A'', CInt 5], [CStr ''State Rep 1'', CStr ''B'', CInt 7]])
       = Inr ([''Row mismatch in Boone: expected (State Rep 1, B), got (President, Write-in)''],
              [[CStr ''President'', CStr ''A'', CInt 5, CInt 4],
               [CStr ''State Rep 1'', CStr ''B'', CInt 7, CInt 1]])
   \<and> add_rows (county_name boone_sheet) (base_rows_of adair_sheet) [2] 0
         (rows boone_sheet)
         ([], [[CStr ''President'', CStr ''A'', CInt 5], [CStr ''State Rep 1'', CStr ''B'', CInt 7]])
       = Inl IndexError
   \<and> merge_county_files [adair_sheet, boone_sheet] = Inl IndexError"
  by code_simp

text \<open>
  Claim C10.  If some file after the first has more data rows than the first file, the
  merge ends with an error and saves nothing; when every header cell is a text or
  empty, the error is \<open>IndexError\<close>.
\<close>

theorem longer_file_aborts_merge:
  assumes "ws \<in> set others" and "length (rows first_ws) < length (rows ws)"
  shows "\<exists>e. merge_county_files (first_ws # others) = Inl e
     \<and> ((\<forall>w \<in> set (first_ws # others). \<forall>h \<in> set (header w). is_text_or_empty h)
          \<longrightarrow> e = IndexError)"
proof (cases "start_rows (rows first_ws)")
  case (Inl e)
  then have "e = IndexError" by (rule start_rows_Inl)
  with Inl show ?thesis by (simp add: merge_county_files_def)
next
  case (Inr data0)
  let ?m0 = "\<lparr>merged_headers = [''RaceTitle'', ''CandidateName''],
                 total_precincts = 0, problems_found = [], merged_data = data0\<rparr>"
  from Inr have "length data0 = length (rows first_ws)"
    by (simp add: start_rows_Inr_iff)
  then have len: "length (merged_data ?m0) < length (rows ws)"
    using assms(2) by simp
  have mem: "ws \<in> set (first_ws # others)" using assms(1) by simp
  from add_files_too_long [OF mem len, of "base_rows_of first_ws"]
  obtain e where e: "add_files (base_rows_of first_ws) (first_ws # others) ?m0 = Inl e"
    "(\<forall>w \<in> set (first_ws # others). \<forall>h \<in> set (header w). is_text_or_empty h)
       \<longrightarrow> e = IndexError"
    by (elim exE conjE)
  have "merge_county_files (first_ws # others) = Inl e"
    using Inr e(1) by (simp add: merge_county_files_def)
  with e(2) show ?thesis by (intro exI conjI)
qed

theorem longer_file_aborts_merge_witness:
  "merge_county_files [adair_sheet, linn_sheet] = Inl IndexError"
proof -
  have h1: "linn_sheet \<in> set [linn_sheet]" by simp
  have h2: "length (rows adair_sheet) < length (rows linn_sheet)" by code_simp
  have h3: "\<forall>w \<in> set [adair_sheet, linn_sheet]. \<forall>h \<in> set (header w). is_text_or_empty h"
    by code_simp
  from longer_file_aborts_merge [OF h1 h2] h3 show ?thesis
    by (elim exE conjE) simp
qed

section \<open>Properties of the key-based merger\<close>

lemma set_drop_duplicates: "set (drop_duplicates xs) = set xs"
  by (simp add: drop_duplicates_def)

lemma left_join_row_keys: "fst ` set (left_join_row df r) = {fst r}"
  by (cases "filter (\<lambda>e. fst e = fst r) (entries df)") (auto simp: left_join_row_def)

lemma left_join_keys:
  "fst ` set (concat (map (left_join_row df) rs)) = fst ` set rs"
proof -
  have "fst ` set (concat (map (left_join_row df) rs))
      = (\<Union>r \<in> set rs. fst ` set (left_join_row df r))" by auto
  also have "\<dots> = (\<Union>r \<in> set rs. {fst r})" by (simp only: left_join_row_keys)
  also have "\<dots> = fst ` set rs" by auto
  finally show ?thesis .
qed

lemma merge_frames_keys:
  "merge_frames w dfs = Inr w' \<Longrightarrow>
   fst ` set (wide_rows w') = fst ` set (wide_rows w)
   \<and> labels w' = labels w @ concat (map precincts dfs)"
proof (induction dfs arbitrary: w)
  case Nil
  then show ?case by simp
next
  case (Cons df rest)
  from Cons.prems obtain w1 where
    m: "merge_frame w df = Inr w1" and r: "merge_frames w1 rest = Inr w'"
    by (auto split: sum.splits)
  from m have w1: "w1 = \<lparr>labels = labels w @ precincts df,
                wide_rows = concat (map (left_join_row df) (wide_rows w))\<rparr>"
    by (auto simp: merge_frame_def split: if_splits)
  have k1: "fst ` set (wide_rows w1) = fst ` set (wide_rows w)"
    unfolding w1 using left_join_keys [of df "wide_rows w"] by simp
  have l1: "labels w1 = labels w @ precincts df" by (simp add: w1)
  from Cons.IH [OF r] show ?case by (simp add: k1 l1)
qed

lemma filter_distinct_key:
  "distinct (map fst es) \<Longrightarrow>
   filter (\<lambda>e. fst e = k) es = (case map_of es k of None \<Rightarrow> [] | Some v \<Rightarrow> [(k, v)])"
proof (induction es)
  case Nil
  then show ?case by simp
next
  case (Cons e es)
  show ?case
  proof (cases "fst e = k")
    case True
    with Cons.prems have "k \<notin> fst ` set es" by auto
    then have "filter (\<lambda>e. fst e = k) es = []" by (auto simp: filter_empty_conv)
    with True show ?thesis by (cases e) auto
  next
    case False
    with Cons show ?thesis by (cases e) auto
  qed
qed

lemma left_join_row_distinct:
  "distinct (map fst (entries df)) \<Longrightarrow>
   left_join_row df r = [(fst r, snd r @ frame_cells df (fst r))]"
  by (simp add: left_join_row_def frame_cells_def filter_distinct_key split: option.splits)

lemma concat_map_single:
  "(\<And>x. f x = [g x]) \<Longrightarrow> concat (map f xs) = map g xs"
  by (induction xs) simp_all

lemma merge_frames_rows:
  assumes "\<forall>df \<in> set dfs. distinct (map fst (entries df))"
    and "merge_frames w dfs = Inr w'"
  shows "wide_rows w' =
     map (\<lambda>r. (fst r, snd r @ concat (map (\<lambda>df. frame_cells df (fst r)) dfs))) (wide_rows w)"
  using assms
proof (induction dfs arbitrary: w)
  case Nil
  then show ?case by simp
next
  case (Cons df rest)
  from Cons.prems(2) obtain w1 where
    m: "merge_frame w df = Inr w1" and r: "merge_frames w1 rest = Inr w'"
    by (auto split: sum.splits)
  from Cons.prems(1) have d: "distinct (map fst (entries df))"
    and dr: "\<forall>df \<in> set rest. distinct (map fst (entries df))" by simp_all
  from m have "wide_rows w1 = concat (map (left_join_row df) (wide_rows w))"
    by (auto simp: merge_frame_def split: if_splits)
  moreover have "concat (map (left_join_row df) (wide_rows w))
      = map (\<lambda>r. (fst r, snd r @ frame_cells df (fst r))) (wide_rows w)"
    by (rule concat_map_single) (rule left_join_row_distinct [OF d])
  ultimately have w1:
    "wide_rows w1 = map (\<lambda>r. (fst r, snd r @ frame_cells df (fst r))) (wide_rows w)"
    by simp
  from Cons.IH [OF dr r] show ?case by (simp add: w1 o_def)
qed

lemma set_insert_row: "set (insert_row r xs) = insert r (set xs)"
  by (induction xs) auto

lemma set_sort_values: "set (sort_values rs) = set rs"
  unfolding sort_values_def by (induction rs) (simp_all add: set_insert_row)

lemma team_merge_Written:
  assumes "team_merge_county_files all_data = Inr (Written out)"
  shows "\<exists>w. merge_frames
                \<lparr>labels = [], wide_rows = map (\<lambda>k. (k, [])) (all_races_candidates all_data)\<rparr>
                all_data = Inr w
     \<and> csv_header out = ''RaceTitle'' # ''CandidateName'' # ''PoliticalPartyName'' # labels w
     \<and> csv_rows out = map csv_row (sort_values (wide_rows w))"
  using assms
  by (auto simp: team_merge_county_files_def split: if_splits sum.splits)

lemma team_merge_keys:
  assumes "team_merge_county_files all_data = Inr (Written out)"
  shows "set (map row_key (csv_rows out))
     = key_cells ` (\<Union>df \<in> set all_data. fst ` set (entries df))"
proof -
  from team_merge_Written [OF assms] obtain w where
    w: "merge_frames
                \<lparr>labels = [], wide_rows = map (\<lambda>k. (k, [])) (all_races_candidates all_data)\<rparr>
                all_data = Inr w"
    and rows: "csv_rows out = map csv_row (sort_values (wide_rows w))"
    by (elim exE conjE)
  have rk: "\<And>r. row_key (csv_row r) = key_cells (fst r)"
    by (simp add: row_key_def csv_row_def key_cells_def)
  from merge_frames_keys [OF w]
  have keys: "fst ` set (wide_rows w) = set (all_races_candidates all_data)"
    by (simp add: image_image)
  have "set (map row_key (csv_rows out)) = key_cells ` fst ` set (wide_rows w)"
    by (simp add: rows set_sort_values image_image rk)
  also have "\<dots> = key_cells ` (\<Union>df \<in> set all_data. fst ` set (entries df))"
    by (simp add: keys all_races_candidates_def set_drop_duplicates)
  finally show ?thesis .
qed

lemma team_merge_rows:
  assumes "team_merge_county_files all_data = Inr (Written out)"
    and "\<forall>df \<in> set all_data. distinct (map fst (entries df))"
  shows "\<forall>row \<in> set (csv_rows out). \<exists>k.
           row = CStr (fst k) # CStr (snd k) # CStr []
                   # concat (map (\<lambda>df. frame_cells df k) all_data)"
proof -
  from team_merge_Written [OF assms(1)] obtain w where
    w: "merge_frames
                \<lparr>labels = [], wide_rows = map (\<lambda>k. (k, [])) (all_races_candidates all_data)\<rparr>
                all_data = Inr w"
    and rows: "csv_rows out = map csv_row (sort_values (wide_rows w))"
    by (elim exE conjE)
  from merge_frames_rows [OF assms(2) w]
  have wr: "wide_rows w =
     map (\<lambda>k. (k, concat (map (\<lambda>df. frame_cells df k) all_data)))
       (all_races_candidates all_data)"
    by (simp add: o_def)
  show ?thesis
  proof
    fix row assume "row \<in> set (csv_rows out)"
    then obtain r where r: "r \<in> set (wide_rows w)" "row = csv_row r"
      by (auto simp: rows set_sort_values)
    from r(1) obtain k where "r = (k, concat (map (\<lambda>df. frame_cells df k) all_data))"
      unfolding wr by auto
    with r(2) show "\<exists>k. row = CStr (fst k) # CStr (snd k) # CStr []
                   # concat (map (\<lambda>df. frame_cells df k) all_data)"
      by (auto simp: csv_row_def)
  qed
qed

lemma team_merge_party:
  assumes "team_merge_county_files all_data = Inr (Written out)"
  shows "take 3 (csv_header out) = [''RaceTitle'', ''CandidateName'', ''PoliticalPartyName'']
     \<and> (\<forall>row \<in> set (csv_rows out). row ! 2 = CStr [])
     \<and> drop 3 (csv_header out) = concat (map precincts all_data)"
proof -
  from team_merge_Written [OF assms] obtain w where
    w: "merge_frames
                \<lparr>labels = [], wide_rows = map (\<lambda>k. (k, [])) (all_races_candidates all_data)\<rparr>
                all_data = Inr w"
    and hdr: "csv_header out = ''RaceTitle'' # ''CandidateName'' # ''PoliticalPartyName'' # labels w"
    and rows: "csv_rows out = map csv_row (sort_values (wide_rows w))"
    by (elim exE conjE)
  from merge_frames_keys [OF w] have "labels w = concat (map precincts all_data)" by simp
  then show ?thesis by (auto simp: hdr rows csv_row_def)
qed

lemma frame_cells_absent:
  "k \<notin> fst ` set (entries df) \<Longrightarrow> frame_cells df k = replicate (length (precincts df)) CNone"
proof -
  assume "k \<notin> fst ` set (entries df)"
  then have "map_of (entries df) k = None" by (simp add: map_of_eq_None_iff)
  then show ?thesis by (simp add: frame_cells_def)
qed

section \<open>Rows, keys and columns of the merged table\<close>

text \<open>
  Claim C2, as stated, fails for both mergers.  In the positional merger Adair has the
  rows (President, A) and (State Rep 1, B), Story has the single row (State Sen 9, C).
  The merged table has the two rows of Adair only: the key of Story is not a row of
  it, the votes of Story's candidate are attached to the first row, and the second row
  gets no cell at all in the column of Story, not a zero.  The key-based merger does
  give the union of the keys, but the row of (State Rep 1, B), which the frame of Story
  does not have, holds a missing value in the two columns of Story, not a zero.
\<close>

theorem merged_keys_not_union_counterexample:
  "merge_county_files [adair_sheet, story_sheet]
     = Inr (Saved
         \<lparr>merged_headers = [''RaceTitle'', ''CandidateName'', ''Adair-1'', ''Story-1''],
          total_precincts = 2,
          problems_found =
            [''Row mismatch in Story: expected (President, A), got (State Sen 9, C)'',
             ''Row 3 has 3 columns, expected 4''],
          merged_data = [[CStr ''President'', CStr ''A'', CInt 5, CInt 6],
                         [CStr ''State Rep 1'', CStr ''B'', CInt 7]]\<rparr>
         (report_lines
            [''Row mismatch in Story: expected (President, A), got (State Sen 9, C)'',
             ''Row 3 has 3 columns, expected 4'']))
   \<and> (CStr ''State Sen 9'', CStr ''C'') \<in> set (map row_key (rows story_sheet))
   \<and> (CStr ''State Sen 9'', CStr ''C'')
        \<notin> set (map row_key [[CStr ''President'', CStr ''A'', CInt 5, CInt 6],
                               [CStr ''State Rep 1'', CStr ''B'', CInt 7]])
   \<and> set (map row_key [[CStr ''President'', CStr ''A'', CInt 5, CInt 6],
                         [CStr ''State Rep 1'', CStr ''B'', CInt 7]])
        \<noteq> set (map row_key (rows adair_sheet)) \<union> set (map row_key (rows story_sheet))
   \<and> team_merge_county_files [adair_frame, story_frame]
       = Inr (Written
           \<lparr>csv_header = [''RaceTitle'', ''CandidateName'', ''PoliticalPartyName'',
                           ''Adair-1'', ''Story-1'', ''Story-2''],
            csv_rows = [[CStr ''President'', CStr ''A'', CStr [], CInt 5, CInt 4, CNone],
                        [CStr ''State Rep 1'', CStr ''B'', CStr [], CInt 7, CNone, CNone],
                        [CStr ''State Sen 9'', CStr ''C'', CStr [], CNone, CInt 6, CInt 2]]\<rparr>)
   \<and> (''State Rep 1'', ''B'') \<notin> fst ` set (entries story_frame)"
  by code_simp

text \<open>
  Claim C2, amended.  When the positional merger \<open>merge_county_files\<close> saves a table,
  its rows carry the (race title, candidate) keys of the rows of the first file, in the
  same order, and nothing else; the cells that follow the key in row \<open>k\<close> are, file
  after file, the precinct cells of row \<open>k\<close> of that file, unchanged, and nothing for a
  file that has no row \<open>k\<close>.  When the key-based merger of \<open>team_a\<close> writes a table for
  frames in which no key occurs twice, the keys of its rows are the union of the keys
  of all frames; the cells that follow the three leading columns of the row of a key
  are, frame after frame, the cells of the entry of that frame for the key, and a
  missing value, not a zero, in each precinct column of a frame that has no entry for
  the key.
\<close>

theorem merged_keys_of_both_mergers:
  assumes "merge_county_files files = Inr (Saved m report)"
    and "team_merge_county_files all_data = Inr (Written out)"
    and "\<forall>df \<in> set all_data. distinct (map fst (entries df))"
  shows "map row_key (merged_data m) = map row_key (rows (hd files))
     \<and> (\<forall>k < length (rows (hd files)).
           drop 2 (merged_data m ! k) = concat (map (\<lambda>ws. contribution ws k) files))
     \<and> set (map row_key (csv_rows out))
          = key_cells ` (\<Union>df \<in> set all_data. fst ` set (entries df))
     \<and> (\<forall>row \<in> set (csv_rows out). \<exists>k.
           row_key row = key_cells k
           \<and> drop 3 row = concat (map (\<lambda>df. frame_cells df k) all_data))
     \<and> (\<forall>df \<in> set all_data. \<forall>k. k \<notin> fst ` set (entries df) \<longrightarrow>
           frame_cells df k = replicate (length (precincts df)) CNone)"
proof -
  note ms = merge_Saved [OF assms(1)]
  have row: "\<And>k. k < length (rows (hd files)) \<Longrightarrow>
      merged_data m ! k = [rows (hd files) ! k ! 0, rows (hd files) ! k ! 1]
        @ concat (map (\<lambda>ws. contribution ws k) files)"
    using ms(5) by (simp add: base_cells_def)
  have a: "map row_key (merged_data m) = map row_key (rows (hd files))"
    using ms(4) row by (simp add: list_eq_iff_nth_eq row_key_def)
  have b: "\<forall>k < length (rows (hd files)).
           drop 2 (merged_data m ! k) = concat (map (\<lambda>ws. contribution ws k) files)"
    using row by simp
  note c = team_merge_keys [OF assms(2)]
  have d: "\<forall>row \<in> set (csv_rows out). \<exists>k.
           row_key row = key_cells k
           \<and> drop 3 row = concat (map (\<lambda>df. frame_cells df k) all_data)"
  proof
    fix row assume "row \<in> set (csv_rows out)"
    with team_merge_rows [OF assms(2,3)] obtain k where
      "row = CStr (fst k) # CStr (snd k) # CStr []
               # concat (map (\<lambda>df. frame_cells df k) all_data)" by blast
    then have "row_key row = key_cells k
           \<and> drop 3 row = concat (map (\<lambda>df. frame_cells df k) all_data)"
      by (simp add: row_key_def key_cells_def)
    then show "\<exists>k. row_key row = key_cells k
           \<and> drop 3 row = concat (map (\<lambda>df. frame_cells df k) all_data)" ..
  qed
  have e: "\<forall>df \<in> set all_data. \<forall>k. k \<notin> fst ` set (entries df) \<longrightarrow>
           frame_cells df k = replicate (length (precincts df)) CNone"
    by (intro ballI allI impI) (rule frame_cells_absent)
  show ?thesis by (intro conjI a b c d e)
qed

theorem merged_keys_of_both_mergers_witness:
  "\<exists>m report out.
     merge_county_files [adair_sheet, story_sheet] = Inr (Saved m report)
     \<and> team_merge_county_files [adair_frame, story_frame] = Inr (Written out)
     \<and> map row_key (merged_data m)
         = [(CStr ''President'', CStr ''A''), (CStr ''State Rep 1'', CStr ''B'')]
     \<and> drop 2 (merged_data m ! 1) = [CInt 7]
     \<and> set (map row_key (csv_rows out))
         = {(CStr ''President'', CStr ''A''), (CStr ''State Rep 1'', CStr ''B''),
            (CStr ''State Sen 9'', CStr ''C'')}
     \<and> frame_cells story_frame (''State Rep 1'', ''B'') = [CNone, CNone]"
proof -
  let ?files = "[adair_sheet, story_sheet]" and ?frames = "[adair_frame, story_frame]"
  have "well_formed_run ?files" by code_simp
  from merge_total [OF this] obtain m report where
    mr: "merge_county_files ?files = Inr (Saved m report)" by (elim exE)
  have tw: "team_merge_county_files ?frames
      = Inr (Written
           \<lparr>csv_header = [''RaceTitle'', ''CandidateName'', ''PoliticalPartyName'',
                           ''Adair-1'', ''Story-1'', ''Story-2''],
            csv_rows = [[CStr ''President'', CStr ''A'', CStr [], CInt 5, CInt 4, CNone],
                        [CStr ''State Rep 1'', CStr ''B'', CStr [], CInt 7, CNone, CNone],
                        [CStr ''State Sen 9'', CStr ''C'', CStr [], CNone, CInt 6, CInt 2]]\<rparr>)"
    (is "_ = Inr (Written ?out)")
    by code_simp
  have dk: "\<forall>df \<in> set ?frames. distinct (map fst (entries df))" by code_simp
  note r = merged_keys_of_both_mergers [OF mr tw dk]
  have e1: "map row_key (rows (hd ?files))
      = [(CStr ''President'', CStr ''A''), (CStr ''State Rep 1'', CStr ''B'')]" by code_simp
  have e2: "concat (map (\<lambda>ws. contribution ws 1) ?files) = [CInt 7]" by code_simp
  have k: "1 < length (rows (hd ?files))" by code_simp
  have e3: "key_cells ` (\<Union>df \<in> set ?frames. fst ` set (entries df))
      = {(CStr ''President'', CStr ''A''), (CStr ''State Rep 1'', CStr ''B''),
         (CStr ''State Sen 9'', CStr ''C'')}"
    by (auto simp: key_cells_def adair_frame_def story_frame_def)
  have e4: "(''State Rep 1'', ''B'') \<notin> fst ` set (entries story_frame)" by code_simp
  have e5: "replicate (length (precincts story_frame)) CNone = [CNone, CNone]" by code_simp
  have a: "map row_key (merged_data m) = map row_key (rows (hd ?files))"
    using r by (rule conjunct1)
  have b: "\<forall>k < length (rows (hd ?files)).
           drop 2 (merged_data m ! k) = concat (map (\<lambda>ws. contribution ws k) ?files)"
    using r by (rule conjunct2 [THEN conjunct1])
  from b k have b1: "drop 2 (merged_data m ! 1) = concat (map (\<lambda>ws. contribution ws 1) ?files)"
    by simp
  have c: "set (map row_key (csv_rows ?out))
          = key_cells ` (\<Union>df \<in> set ?frames. fst ` set (entries df))"
    using r by (rule conjunct2 [THEN conjunct2, THEN conjunct1])
  have e: "\<forall>df \<in> set ?frames. \<forall>k. k \<notin> fst ` set (entries df) \<longrightarrow>
           frame_cells df k = replicate (length (precincts df)) CNone"
    using r by (rule conjunct2 [THEN conjunct2, THEN conjunct2, THEN conjunct2])
  from e e4 have f: "frame_cells story_frame (''State Rep 1'', ''B'')
      = replicate (length (precincts story_frame)) CNone" by simp
  show ?thesis
    by (intro exI conjI)
       (rule mr, rule tw, simp only: a e1, simp only: b1 e2, simp only: c e3, simp only: f e5)
qed

text \<open>
  Claim C9, as stated, fails.  Adair reports the parties REP and DEM in its
  \<open>PoliticalPartyName\<close> column; the table that the positional merger saves has the
  columns \<open>RaceTitle\<close>, \<open>CandidateName\<close>, \<open>Adair-1\<close> and no party column, and no row
  carries a party.
\<close>

theorem party_not_attached_counterexample:
  "merge_county_files [adair_sheet]
     = Inr (Saved
         \<lparr>merged_headers = [''RaceTitle'', ''CandidateName'', ''Adair-1''],
          total_precincts = 1,
          problems_found = [suspicious_message ''state rep 1'' (CStr ''B'')],
          merged_data = [[CStr ''President'', CStr ''A'', CInt 5],
                         [CStr ''State Rep 1'', CStr ''B'', CInt 7]]\<rparr>
         (report_lines [suspicious_message ''state rep 1'' (CStr ''B'')]))
   \<and> header adair_sheet ! 2 = CStr ''PoliticalPartyName''
   \<and> rows adair_sheet ! 0 ! 2 = CStr ''REP''"
  by code_simp

text \<open>
  Claim C9, amended.  The table that the positional merger saves starts with the two
  columns \<open>RaceTitle\<close> and \<open>CandidateName\<close>; every further column is a precinct column of
  some file and none is named \<open>PoliticalPartyName\<close>; a row of it holds the first two
  cells of the row of the first file and then, file after file, the cells that the row
  of that file has in its precinct columns, and a column whose trimmed header is
  \<open>PoliticalPartyName\<close> is never a precinct column: the table has no party column and
  no cell of such a column is copied.  The table that the key-based merger of \<open>team_a\<close>
  writes starts with the three columns \<open>RaceTitle\<close>, \<open>CandidateName\<close> and
  \<open>PoliticalPartyName\<close>, followed by the precinct columns of the frames, and its party
  cell is the empty text in every row.
\<close>

theorem party_column_of_both_mergers:
  assumes "merge_county_files files = Inr (Saved m report)"
    and "team_merge_county_files all_data = Inr (Written out)"
  shows "take 2 (merged_headers m) = [''RaceTitle'', ''CandidateName'']
     \<and> drop 2 (merged_headers m) = concat (map precinct_names files)
     \<and> ''PoliticalPartyName'' \<notin> set (drop 2 (merged_headers m))
     \<and> length (merged_data m) = length (rows (hd files))
     \<and> (\<forall>k < length (merged_data m).
           merged_data m ! k =
             [rows (hd files) ! k ! 0, rows (hd files) ! k ! 1]
             @ concat (map (\<lambda>ws. if k < length (rows ws)
                                   then map ((!) (rows ws ! k)) (precinct_indices ws) else [])
                         files))
     \<and> (\<forall>ws \<in> set files. \<forall>i \<in> set (precinct_indices ws).
           \<exists>s. header ws ! i = CStr s \<and> strip s \<noteq> ''PoliticalPartyName'')
     \<and> take 3 (csv_header out) = [''RaceTitle'', ''CandidateName'', ''PoliticalPartyName'']
     \<and> drop 3 (csv_header out) = concat (map precincts all_data)
     \<and> (\<forall>row \<in> set (csv_rows out). row ! 2 = CStr [])"
proof -
  note ms = merge_Saved [OF assms(1)]
  have party: "''PoliticalPartyName'' \<in> set metadata_cols"
    by (simp add: metadata_cols_def)
  have a: "take 2 (merged_headers m) = [''RaceTitle'', ''CandidateName'']"
    and b: "drop 2 (merged_headers m) = concat (map precinct_names files)"
    by (simp_all add: ms(2))
  have c: "''PoliticalPartyName'' \<notin> set (drop 2 (merged_headers m))"
  proof
    assume "''PoliticalPartyName'' \<in> set (drop 2 (merged_headers m))"
    then obtain ws where "''PoliticalPartyName'' \<in> set (precinct_names ws)"
      unfolding b by auto
    from precinct_names_not_metadata [OF this] party show False by simp
  qed
  have contr: "\<And>k. (\<lambda>ws. contribution ws k)
      = (\<lambda>ws. if k < length (rows ws)
               then map ((!) (rows ws ! k)) (precinct_indices ws) else [])"
    by (rule ext) (simp add: contribution_def)
  have d: "\<forall>k < length (merged_data m).
           merged_data m ! k =
             [rows (hd files) ! k ! 0, rows (hd files) ! k ! 1]
             @ concat (map (\<lambda>ws. if k < length (rows ws)
                                   then map ((!) (rows ws ! k)) (precinct_indices ws) else [])
                         files)"
    using ms(5) unfolding ms(4) base_cells_def contr .
  have e: "\<forall>ws \<in> set files. \<forall>i \<in> set (precinct_indices ws).
           \<exists>s. header ws ! i = CStr s \<and> strip s \<noteq> ''PoliticalPartyName''"
  proof (intro ballI)
    fix ws i assume "i \<in> set (precinct_indices ws)"
    then obtain n where "(i, n) \<in> set (precinct_pairs ws)"
      by (auto simp: precinct_indices_def)
    then obtain s where s: "header ws ! i = CStr s" "strip s \<notin> set metadata_cols"
      unfolding precinct_pairs_member by (elim conjE exE)
    from s(2) party have "strip s \<noteq> ''PoliticalPartyName''" by metis
    with s(1) show "\<exists>s. header ws ! i = CStr s \<and> strip s \<noteq> ''PoliticalPartyName''"
      by (intro exI conjI)
  qed
  note t = team_merge_party [OF assms(2)]
  have f: "take 3 (csv_header out) = [''RaceTitle'', ''CandidateName'', ''PoliticalPartyName'']"
    using t by (rule conjunct1)
  have g: "\<forall>row \<in> set (csv_rows out). row ! 2 = CStr []"
    using t by (rule conjunct2 [THEN conjunct1])
  have h: "drop 3 (csv_header out) = concat (map precincts all_data)"
    using t by (rule conjunct2 [THEN conjunct2])
  show ?thesis by (intro conjI a b c ms(4) d e f h g)
qed

theorem party_column_of_both_mergers_witness:
  "\<exists>m report out.
     merge_county_files [adair_sheet, polk_sheet] = Inr (Saved m report)
     \<and> team_merge_county_files [adair_frame, story_frame] = Inr (Written out)
     \<and> take 2 (merged_headers m) = [''RaceTitle'', ''CandidateName'']
     \<and> drop 2 (merged_headers m) = [''Adair-1'', ''Polk-1'', ''Polk-2'']
     \<and> take 3 (csv_header out) = [''RaceTitle'', ''CandidateName'', ''PoliticalPartyName'']
     \<and> drop 3 (csv_header out) = [''Adair-1'', ''Story-1'', ''Story-2'']"
proof -
  let ?files = "[adair_sheet, polk_sheet]" and ?frames = "[adair_frame, story_frame]"
  have "well_formed_run ?files" by code_simp
  from merge_total [OF this] obtain m report where
    mr: "merge_county_files ?files = Inr (Saved m report)" by (elim exE)
  have tw: "team_merge_county_files ?frames
      = Inr (Written
           \<lparr>csv_header = [''RaceTitle'', ''CandidateName'', ''PoliticalPartyName'',
                           ''Adair-1'', ''Story-1'', ''Story-2''],
            csv_rows = [[CStr ''President'', CStr ''A'', CStr [], CInt 5, CInt 4, CNone],
                        [CStr ''State Rep 1'', CStr ''B'', CStr [], CInt 7, CNone, CNone],
                        [CStr ''State Sen 9'', CStr ''C'', CStr [], CNone, CInt 6, CInt 2]]\<rparr>)"
    (is "_ = Inr (Written ?out)")
    by code_simp
  have e: "concat (map precinct_names ?files) = [''Adair-1'', ''Polk-1'', ''Polk-2'']"
    by code_simp
  have e': "concat (map precincts ?frames) = [''Adair-1'', ''Story-1'', ''Story-2'']"
    by code_simp
  note r = party_column_of_both_mergers [OF mr tw]
  have a: "take 2 (merged_headers m) = [''RaceTitle'', ''CandidateName'']"
    using r by (rule conjunct1)
  have b: "drop 2 (merged_headers m) = concat (map precinct_names ?files)"
    using r by (rule conjunct2 [THEN conjunct1])
  have f: "take 3 (csv_header ?out) = [''RaceTitle'', ''CandidateName'', ''PoliticalPartyName'']"
    by simp
  have h: "drop 3 (csv_header ?out) = concat (map precincts ?frames)"
    using r by (elim conjE)
  show ?thesis
    by (intro exI conjI) (rule mr, rule tw, rule a, simp only: b e, rule f, simp only: h e')
qed

section \<open>Vote-pattern findings and the report\<close>

lemma votes_everywhere_iff:
  assumes "length vs \<le> n"
  shows "precincts_with_votes vs = n \<longleftrightarrow> length vs = n \<and> (\<forall>v \<in> set vs. has_votes v)"
proof
  assume a: "precincts_with_votes vs = n"
  have le: "length (filter has_votes vs) \<le> length vs" by (rule length_filter_le)
  with a assms have l: "length vs = n" by (simp add: precincts_with_votes_def)
  have "\<forall>v \<in> set vs. has_votes v"
  proof (rule ccontr)
    assume "\<not> (\<forall>v \<in> set vs. has_votes v)"
    then obtain v where "v \<in> set vs" "\<not> has_votes v" by blast
    then have "length (filter has_votes vs) < length vs" by (rule length_filter_less)
    with a l show False by (simp add: precincts_with_votes_def)
  qed
  with l show "length vs = n \<and> (\<forall>v \<in> set vs. has_votes v)" by simp
next
  assume "length vs = n \<and> (\<forall>v \<in> set vs. has_votes v)"
  then show "precincts_with_votes vs = n" by (simp add: precincts_with_votes_def)
qed

lemma has_votes_count: "0 \<le> n \<Longrightarrow> has_votes (CInt n) \<longleftrightarrow> n \<noteq> 0"
  by auto

lemma length_contribution: "length (contribution ws k) \<le> length (precinct_indices ws)"
  by (simp add: contribution_def)

lemma length_contributions:
  "length (concat (map (\<lambda>ws. contribution ws k) files))
     \<le> sum_list (map (\<lambda>ws. length (precinct_indices ws)) files)"
  by (induction files) (auto intro: add_mono length_contribution)

lemma merged_row_length:
  assumes "merge_county_files files = Inr (Saved m report)" "row \<in> set (merged_data m)"
  shows "2 \<le> length row \<and> length row \<le> 2 + total_precincts m"
proof -
  note ms = merge_Saved [OF assms(1)]
  from assms(2) obtain k where k: "k < length (merged_data m)" "row = merged_data m ! k"
    by (auto simp: in_set_conv_nth)
  then have "row = base_cells (hd files) k @ concat (map (\<lambda>ws. contribution ws k) files)"
    using ms(4,5) by simp
  then show ?thesis
    using length_contributions [of k files] by (simp add: base_cells_def ms(3))
qed

lemma report_lines_length: "length (report_lines ps) \<le> 12"
  by (simp add: report_lines_def)

lemma report_lines_shown:
  "i < length ps \<Longrightarrow> i < 10 \<Longrightarrow> report_lines ps ! Suc i = ''  - '' @ ps ! i"
  by (auto simp: report_lines_def nth_append)

lemma report_lines_more:
  "10 < length ps \<Longrightarrow>
   report_lines ps ! 11 = ''  ... and '' @ str_nat (length ps - 10) @ '' more''
   \<and> length (report_lines ps) = 12"
  by (auto simp: report_lines_def nth_append nth_Cons')

lemma report_lines_few:
  "ps \<noteq> [] \<Longrightarrow> length ps \<le> 10 \<Longrightarrow> length (report_lines ps) = Suc (length ps)"
  by (simp add: report_lines_def)

lemma not_statewide_empty: "\<not> contains_any [] statewide_races"
  by code_simp

lemma statewide_row_checkable:
  "is_statewide_row row \<Longrightarrow> 2 \<le> length row \<Longrightarrow> checkable row"
  using not_statewide_empty
  by (cases "row ! 0") (auto simp: is_statewide_row_def row_title_def checkable_def)

text \<open>
  Claim C7.  In every saved merge, a row whose lower-case race title contains none of
  the statewide keywords and whose precinct cells, one for each of the
  \<open>total_precincts\<close> columns, all hold votes (\<open>v and int(v) > 0\<close>; for a vote count,
  which is never negative, this is \<open>v \<noteq> 0\<close>) has its ``Suspicious'' finding in
  \<open>problems_found\<close>; the findings of the vote-pattern check are those of such rows and
  of no other row, so a statewide row gets none, however few precincts it has votes
  in; and the printed report has a head line, the first ten findings at most, and a
  last line counting the rest when there are more than ten.
\<close>

theorem district_row_with_votes_everywhere_flagged:
  assumes "merge_county_files files = Inr (Saved m report)"
  shows "(\<forall>row \<in> set (merged_data m).
            \<not> is_statewide_row row \<and> length row = 2 + total_precincts m
              \<and> (\<forall>v \<in> set (drop 2 row). has_votes v)
            \<longrightarrow> suspicious_message (row_title row) (row ! 1) \<in> set (problems_found m))
     \<and> (\<forall>row \<in> set (merged_data m).
            row_flag (total_precincts m) row =
              (if \<not> is_statewide_row row \<and> length row = 2 + total_precincts m
                    \<and> (\<forall>v \<in> set (drop 2 row). has_votes v)
               then [suspicious_message (row_title row) (row ! 1)] else []))
     \<and> (\<exists>earlier. problems_found m
            = earlier @ concat (map (row_flag (total_precincts m)) (merged_data m)))
     \<and> report = report_lines (problems_found m)
     \<and> length report \<le> 12
     \<and> (\<forall>i < length (problems_found m). i < 10 \<longrightarrow>
            report ! Suc i = ''  - '' @ problems_found m ! i)
     \<and> (10 < length (problems_found m) \<longrightarrow>
            length report = 12
            \<and> report ! 11 = ''  ... and '' @ str_nat (length (problems_found m) - 10) @ '' more'')"
proof -
  note ms = merge_Saved [OF assms]
  let ?t = "total_precincts m"
  have flag: "\<forall>row \<in> set (merged_data m).
            row_flag ?t row =
              (if \<not> is_statewide_row row \<and> length row = 2 + ?t
                    \<and> (\<forall>v \<in> set (drop 2 row). has_votes v)
               then [suspicious_message (row_title row) (row ! 1)] else [])"
  proof
    fix row assume r: "row \<in> set (merged_data m)"
    from merged_row_length [OF assms r] have l: "2 \<le> length row" "length (drop 2 row) \<le> ?t"
      by auto
    have "precincts_with_votes (drop 2 row) = ?t
        \<longleftrightarrow> length (drop 2 row) = ?t \<and> (\<forall>v \<in> set (drop 2 row). has_votes v)"
      using l(2) by (rule votes_everywhere_iff)
    moreover have "length (drop 2 row) = ?t \<longleftrightarrow> length row = 2 + ?t"
      using l(1) by auto
    ultimately show "row_flag ?t row =
              (if \<not> is_statewide_row row \<and> length row = 2 + ?t
                    \<and> (\<forall>v \<in> set (drop 2 row). has_votes v)
               then [suspicious_message (row_title row) (row ! 1)] else [])"
      by (simp add: row_flag_def suspicious_def)
  qed
  have tail: "\<exists>earlier. problems_found m
            = earlier @ concat (map (row_flag ?t) (merged_data m))"
    using ms(7) by (metis append.assoc)
  have member: "\<forall>row \<in> set (merged_data m).
            \<not> is_statewide_row row \<and> length row = 2 + ?t
              \<and> (\<forall>v \<in> set (drop 2 row). has_votes v)
            \<longrightarrow> suspicious_message (row_title row) (row ! 1) \<in> set (problems_found m)"
  proof (intro ballI impI)
    fix row assume r: "row \<in> set (merged_data m)"
      and c: "\<not> is_statewide_row row \<and> length row = 2 + ?t
              \<and> (\<forall>v \<in> set (drop 2 row). has_votes v)"
    from flag r c have "suspicious_message (row_title row) (row ! 1) \<in> set (row_flag ?t row)"
      by simp
    with r have "suspicious_message (row_title row) (row ! 1)
        \<in> set (concat (map (row_flag ?t) (merged_data m)))"
      by (rule concat_map_memberI)
    then show "suspicious_message (row_title row) (row ! 1) \<in> set (problems_found m)"
      unfolding ms(7) by simp
  qed
  have shown: "\<forall>i < length (problems_found m). i < 10 \<longrightarrow>
            report ! Suc i = ''  - '' @ problems_found m ! i"
    unfolding ms(8) by (intro allI impI) (rule report_lines_shown)
  have more: "10 < length (problems_found m) \<longrightarrow>
            length report = 12
            \<and> report ! 11 = ''  ... and '' @ str_nat (length (problems_found m) - 10) @ '' more''"
    unfolding ms(8) using report_lines_more [of "problems_found m"] by simp
  have len: "length report \<le> 12"
    unfolding ms(8) by (rule report_lines_length)
  show ?thesis
    by (intro conjI member flag tail ms(8) len shown more)
qed

theorem district_row_with_votes_everywhere_flagged_witness:
  "\<exists>m report. merge_county_files [ward_sheet] = Inr (Saved m report)
     \<and> suspicious_message ''state rep 5'' (CStr ''H'') \<in> set (problems_found m)
     \<and> row_flag (total_precincts m) (rows ward_sheet ! 0) = []
     \<and> length report \<le> 12"
proof -
  let ?files = "[ward_sheet]"
  have "well_formed_run ?files" by code_simp
  from merge_total [OF this] obtain m report where
    mr: "merge_county_files ?files = Inr (Saved m report)" by (elim exE)
  note ms = merge_Saved [OF mr]
  note r = district_row_with_votes_everywhere_flagged [OF mr]
  have t: "total_precincts m = 10"
    unfolding ms(3) by code_simp
  have k1: "1 < length (rows (hd ?files))" by code_simp
  have x1: "base_cells (hd ?files) 1 @ concat (map (\<lambda>ws. contribution ws 1) ?files)
      = rows ward_sheet ! 1" by code_simp
  from ms(5) k1 have d1: "merged_data m ! 1 = rows ward_sheet ! 1"
    unfolding x1 [symmetric] by blast
  have e0: "row_flag 10 (rows ward_sheet ! 0) = []" by code_simp
  have "merged_data m ! 1 \<in> set (merged_data m)"
    using k1 unfolding ms(4) [symmetric] by (rule nth_mem)
  then have r1: "rows ward_sheet ! 1 \<in> set (merged_data m)" unfolding d1 .
  have c1: "\<not> is_statewide_row (rows ward_sheet ! 1)
      \<and> length (rows ward_sheet ! 1) = 2 + total_precincts m
      \<and> (\<forall>v \<in> set (drop 2 (rows ward_sheet ! 1)). has_votes v)"
    unfolding t by code_simp
  have e1: "suspicious_message (row_title (rows ward_sheet ! 1)) (rows ward_sheet ! 1 ! 1)
      = suspicious_message ''state rep 5'' (CStr ''H'')" by code_simp
  from r have "\<forall>row \<in> set (merged_data m).
            \<not> is_statewide_row row \<and> length row = 2 + total_precincts m
              \<and> (\<forall>v \<in> set (drop 2 row). has_votes v)
            \<longrightarrow> suspicious_message (row_title row) (row ! 1) \<in> set (problems_found m)"
    by (rule conjunct1)
  with r1 c1 have f: "suspicious_message ''state rep 5'' (CStr ''H'') \<in> set (problems_found m)"
    unfolding e1 [symmetric] by blast
  from r have len: "length report \<le> 12" by (elim conjE)
  show ?thesis
    by (intro exI conjI) (rule mr, rule f, simp only: t e0, rule len)
qed

text \<open>
  Claim C8, as stated, fails.  The only row of Clay is a Governor row with votes in one
  of its four precincts, fewer than half; the merge records no finding at all and the
  report says that no problems were found.
\<close>

theorem statewide_coverage_not_reported_counterexample:
  "is_statewide_row (rows governor_sheet ! 0)
   \<and> 2 * precincts_with_votes (drop 2 (rows governor_sheet ! 0)) < 4
   \<and> merge_county_files [governor_sheet]
       = Inr (Saved
           \<lparr>merged_headers = [''RaceTitle'', ''CandidateName'', ''Clay-1'', ''Clay-2'',
                              ''Clay-3'', ''Clay-4''],
            total_precincts = 4,
            problems_found = [],
            merged_data = [[CStr ''Governor'', CStr ''G'', CInt 3, CInt 0, CInt 0, CNone]]\<rparr>
           [''  No problems found!''])"
  by code_simp

text \<open>
  Claim C8, amended.  For a row whose race title is statewide the vote-pattern check
  computes the number of precincts with votes, compares it with half of the precinct
  count, and records nothing, whatever the outcome: it returns the list of problems as
  it was.
\<close>

theorem statewide_row_records_nothing:
  assumes "is_statewide_row row" and "2 \<le> length row"
  shows "check_pattern_row total_count row problems = Inr problems"
proof -
  have "checkable row" using assms by (rule statewide_row_checkable)
  moreover have "row_flag total_count row = []"
    using assms(1) by (simp add: row_flag_def suspicious_def)
  ultimately show ?thesis by (simp add: check_pattern_row_Inr_iff)
qed

theorem statewide_row_records_nothing_witness:
  "2 * precincts_with_votes (drop 2 [CStr ''Governor'', CStr ''G'', CInt 3, CInt 0, CInt 0, CNone])
     < 4
   \<and> check_pattern_row 4 [CStr ''Governor'', CStr ''G'', CInt 3, CInt 0, CInt 0, CNone] []
       = Inr []"
proof -
  let ?row = "[CStr ''Governor'', CStr ''G'', CInt 3, CInt 0, CInt 0, CNone]"
  have h1: "is_statewide_row ?row" by code_simp
  have h2: "2 \<le> length ?row" by simp
  have c: "2 * precincts_with_votes (drop 2 ?row) < 4" by code_simp
  from c statewide_row_records_nothing [OF h1 h2, of 4 "[]"] show ?thesis by (rule conjI)
qed

section \<open>Properties of the parsers\<close>

text \<open>What the data loop of the flat parser computes.\<close>

lemma filter_rows_eq:
  assumes "\<forall>row \<in> set rs. 1 \<le> length row \<and> (\<forall>i \<in> set (map fst cols). i < length row)"
  shows "filter_rows cols rs out =
     Inr (out\<lparr>new_rows := new_rows out
                 @ map (\<lambda>row. map ((!) row) (map fst cols))
                     (filter (\<lambda>row. is_race_we_want (row ! 0)) rs),
               rows_kept := rows_kept out + length (filter (\<lambda>row. is_race_we_want (row ! 0)) rs),
               rows_removed := rows_removed out
                 + length (filter (\<lambda>row. \<not> is_race_we_want (row ! 0)) rs)\<rparr>)"
  using assms
proof (induction rs arbitrary: out)
  case Nil
  then show ?case by simp
next
  case (Cons row rest)
  then have g: "get row 0 = Inr (row ! 0)" by (auto simp: get_def)
  have p: "pick row (map fst cols) = Inr (map ((!) row) (map fst cols))"
    using Cons.prems by (intro pick_ok) simp
  have rest: "\<forall>row \<in> set rest. 1 \<le> length row \<and> (\<forall>i \<in> set (map fst cols). i < length row)"
    using Cons.prems by simp
  show ?case
    by (simp add: g p Cons.IH [OF rest])
qed

lemma kept_column_bound:
  "get_columns_to_keep hdr = Inr cols \<Longrightarrow> i \<in> set (map fst cols) \<Longrightarrow> i < length hdr"
proof -
  assume a: "get_columns_to_keep hdr = Inr cols" and i: "i \<in> set (map fst cols)"
  show "i < length hdr"
  proof (cases "\<forall>h \<in> set hdr. is_text_or_empty h")
    case True
    from columns_loop_eq [OF True, of 0 "[]"] a
    have "cols = concat (map kept_column (enumerate 0 hdr))"
      by (simp add: get_columns_to_keep_def)
    with i have "i \<in> fst ` set (concat (map kept_column (enumerate 0 hdr)))"
      by simp
    then obtain n where "(i, n) \<in> set (concat (map kept_column (enumerate 0 hdr)))"
      by force
    then show ?thesis unfolding kept_columns_member by (elim conjE)
  next
    case False
    have "\<And>k acc. \<not> (\<forall>h \<in> set hdr. is_text_or_empty h) \<Longrightarrow> columns_loop k hdr acc = Inl AttributeError"
    proof -
      fix k acc show "\<not> (\<forall>h \<in> set hdr. is_text_or_empty h) \<Longrightarrow> columns_loop k hdr acc = Inl AttributeError"
      proof (induction hdr arbitrary: k acc)
        case Nil
        then show ?case by simp
      next
        case (Cons h hs)
        then show ?case by (cases h) (auto simp: Let_def)
      qed
    qed
    from this [OF False] a show ?thesis by (simp add: get_columns_to_keep_def)
  qed
qed

text \<open>
  Claim C3, as stated, fails.  In the flat parser the kept row of President keeps its
  blank cell (\<open>None\<close>) and its text cell as they are; neither becomes zero.
\<close>

theorem blank_cells_not_zero_counterexample:
  "process_election_file blank_sheet
     = Inr \<lparr>new_headers = [''RaceTitle'', ''CandidateName'', ''Polk-1'', ''Polk-2''],
            new_rows = [[CStr ''President'', CStr ''A'', CNone, CStr ''n/a''],
                        [CStr ''Governor'', CStr ''G'', CInt 4, CInt 0]],
            rows_kept = 2, rows_removed = 1\<rparr>
   \<and> rows blank_sheet ! 0 ! 2 = CNone
   \<and> new_rows_of (process_election_file blank_sheet) ! 0 ! 2 \<noteq> CInt 0"
  by code_simp

lemma get_columns_to_keep_eq:
  "\<forall>h \<in> set hdr. is_text_or_empty h \<Longrightarrow>
   get_columns_to_keep hdr = Inr (concat (map kept_column (enumerate 0 hdr)))"
  using columns_loop_eq [of hdr 0 "[]"] by (simp add: get_columns_to_keep_def)

text \<open>
  Claim C3, amended.  For a flat sheet whose header cells are texts or empty and whose
  rows are at least as long as the header, \<open>process_election_file\<close> does not raise; its
  output has one row for each data row whose race title the classifier accepts, in
  order, and such a row holds, for each kept column, the cell of the source row as it
  is (an empty cell stays empty, a text stays a text), so \<open>K\<close> kept columns and \<open>N\<close>
  kept rows give \<open>K * N\<close> values.  In the multi-sheet parser a record holds \<open>0\<close> when
  the vote cell of the frame is missing, and the value of the frame as it is
  otherwise: the parser does not convert it; the record is built without an error
  whenever the cell exists.
\<close>

theorem parsers_keep_cell_values:
  assumes "\<forall>h \<in> set (header sh). is_text_or_empty h"
    and "\<forall>row \<in> set (rows sh). 1 \<le> length row \<and> length (header sh) \<le> length row"
  shows "\<exists>cols out. get_columns_to_keep (header sh) = Inr cols
      \<and> process_election_file sh = Inr out
      \<and> new_rows out = map (\<lambda>row. map ((!) row) (map fst cols))
                          (filter (\<lambda>row. is_race_we_want (row ! 0)) (rows sh))
      \<and> rows_kept out = length (new_rows out)
      \<and> length (concat (new_rows out)) = length cols * rows_kept out
      \<and> (\<forall>county df race_title cand prec v.
            iloc df (snd prec) (snd cand) = Inr v \<longrightarrow>
            (\<exists>r. make_record county df race_title cand prec = Inr r
                 \<and> Votes r = (if v = CNone then CInt 0 else v)))"
proof -
  from get_columns_to_keep_eq [OF assms(1)] obtain cols where
    cols: "get_columns_to_keep (header sh) = Inr cols" by blast
  let ?kept = "filter (\<lambda>row. is_race_we_want (row ! 0)) (rows sh)"
  let ?init = "\<lparr>new_headers = map snd cols, new_rows = [], rows_kept = 0, rows_removed = 0\<rparr>"
  let ?out = "?init\<lparr>new_rows := new_rows ?init @ map (\<lambda>row. map ((!) row) (map fst cols)) ?kept,
               rows_kept := rows_kept ?init + length ?kept,
               rows_removed := rows_removed ?init
                 + length (filter (\<lambda>row. \<not> is_race_we_want (row ! 0)) (rows sh))\<rparr>"
  have fit: "\<forall>row \<in> set (rows sh). 1 \<le> length row \<and> (\<forall>i \<in> set (map fst cols). i < length row)"
  proof (intro ballI conjI)
    fix row assume r: "row \<in> set (rows sh)"
    with assms(2) show "1 \<le> length row" by simp
    fix i assume "i \<in> set (map fst cols)"
    with cols have "i < length (header sh)" by (rule kept_column_bound)
    with assms(2) r show "i < length row" by fastforce
  qed
  have p: "process_election_file sh = Inr ?out"
    using filter_rows_eq [OF fit, where out = ?init] by (simp add: process_election_file_def cols)
  have a: "new_rows ?out = map (\<lambda>row. map ((!) row) (map fst cols)) ?kept" by simp
  have b: "rows_kept ?out = length (new_rows ?out)" by simp
  have "\<And>rs. length (concat (map (\<lambda>row. map ((!) row) (map fst cols)) rs))
      = length cols * length (rs :: cell list list)"
  proof -
    fix rs :: "cell list list"
    show "length (concat (map (\<lambda>row. map ((!) row) (map fst cols)) rs))
      = length cols * length rs"
      by (induction rs) simp_all
  qed
  then have c: "length (concat (new_rows ?out)) = length cols * rows_kept ?out" by simp
  have d: "\<forall>county df race_title cand prec v.
            iloc df (snd prec) (snd cand) = Inr v \<longrightarrow>
            (\<exists>r. make_record county df race_title cand prec = Inr r
                 \<and> Votes r = (if v = CNone then CInt 0 else v))"
    by (simp add: make_record_def)
  show ?thesis
    by (intro exI conjI) (rule cols, rule p, rule a, rule b, rule c, rule d)
qed

theorem parsers_keep_cell_values_witness:
  "\<exists>cols out. get_columns_to_keep (header blank_sheet) = Inr cols
      \<and> process_election_file blank_sheet = Inr out
      \<and> new_rows out = [[CStr ''President'', CStr ''A'', CNone, CStr ''n/a''],
                         [CStr ''Governor'', CStr ''G'', CInt 4, CInt 0]]
      \<and> length (concat (new_rows out)) = length cols * rows_kept out"
proof -
  have h1: "\<forall>h \<in> set (header blank_sheet). is_text_or_empty h" by code_simp
  have h2: "\<forall>row \<in> set (rows blank_sheet).
      1 \<le> length row \<and> length (header blank_sheet) \<le> length row" by code_simp
  from parsers_keep_cell_values [OF h1 h2] obtain cols out where
    c: "get_columns_to_keep (header blank_sheet) = Inr cols" and
    p: "process_election_file blank_sheet = Inr out" and
    n: "new_rows out = map (\<lambda>row. map ((!) row) (map fst cols))
                          (filter (\<lambda>row. is_race_we_want (row ! 0)) (rows blank_sheet))" and
    l: "length (concat (new_rows out)) = length cols * rows_kept out"
    by (elim exE conjE)
  have "get_columns_to_keep (header blank_sheet)
      = Inr [(0, ''RaceTitle''), (1, ''CandidateName''), (2, ''Polk-1''), (4, ''Polk-2'')]"
    by code_simp
  with c have cols: "cols = [(0, ''RaceTitle''), (1, ''CandidateName''), (2, ''Polk-1''),
      (4, ''Polk-2'')]" by simp
  have e: "map (\<lambda>row. map ((!) row)
                (map fst [(0, ''RaceTitle''), (1, ''CandidateName''), (2, ''Polk-1''),
                          (4 :: nat, ''Polk-2'')]))
             (filter (\<lambda>row. is_race_we_want (row ! 0)) (rows blank_sheet))
      = [[CStr ''President'', CStr ''A'', CNone, CStr ''n/a''],
         [CStr ''Governor'', CStr ''G'', CInt 4, CInt 0]]" by code_simp
  have n': "new_rows out = [[CStr ''President'', CStr ''A'', CNone, CStr ''n/a''],
                         [CStr ''Governor'', CStr ''G'', CInt 4, CInt 0]]"
    using n unfolding cols e .
  show ?thesis
    by (intro exI conjI) (rule c, rule p, rule n', rule l)
qed

section \<open>The candidate scan of the multi-sheet parser\<close>









text \<open>
  Every record of a sheet belongs to a pair that the candidate scan has found: a
  candidate that the scan skips has no record.
\<close>

lemma collect_member:
  "collect f xs = Inr ys \<Longrightarrow> y \<in> set ys \<Longrightarrow> \<exists>x \<in> set xs. \<exists>zs. f x = Inr zs \<and> y \<in> set zs"
proof (induction xs arbitrary: ys)
  case Nil
  then show ?case by simp
next
  case (Cons x xs)
  from Cons.prems(1) obtain zs rest where
    z: "f x = Inr zs" "collect f xs = Inr rest" "ys = zs @ rest"
    by (auto split: sum.splits)
  with Cons.prems(2) consider "y \<in> set zs" | "y \<in> set rest" by auto
  then show ?case
  proof cases
    case 1
    with z(1) show ?thesis by auto
  next
    case 2
    from Cons.IH [OF z(2) 2] show ?thesis by auto
  qed
qed

lemma sheet_records_from_scan:
  assumes "sheet_records county df = Inr rs" and "r \<in> set rs"
  shows "\<exists>cands p. scan_candidates df 1 = Inr cands \<and> p \<in> set cands
           \<and> CandidateName r = fst p"
proof -
  from assms obtain race_title col0 cands where
    s: "scan_candidates df 1 = Inr cands" and
    c: "collect (candidate_records county df race_title (scan_precincts 3 col0)) cands = Inr rs"
    by (auto simp: sheet_records_def Let_def split: sum.splits if_splits)
  from collect_member [OF c assms(2)] obtain p zs where
    p: "p \<in> set cands"
      "candidate_records county df race_title (scan_precincts 3 col0) p = Inr zs" "r \<in> set zs"
    by blast
  from collect_member [OF p(2) [unfolded candidate_records_def] p(3)]
  obtain prec where "prec \<in> set (scan_precincts 3 col0)"
    "\<exists>zs. (case make_record county df race_title p prec of Inl e \<Rightarrow> Inl e | Inr r \<Rightarrow> Inr [r])
        = Inr zs \<and> r \<in> set zs" by blast
  then have "make_record county df race_title p prec = Inr r"
    by (auto split: sum.splits)
  then have "CandidateName r = fst p"
    by (auto simp: make_record_def split: sum.splits)
  with s p(1) show ?thesis by blast
qed

end
